theory Spec2Isabelle
  imports Complex_Main "HOL-Library.Word" "HOL-Library.AList"
begin

unbundle bit_operations_syntax

section \<open>Entities of package sendtables (entity.go)\<close>

text \<open>
  A shallow embedding of \<^verbatim>\<open>sendtables/entity.go\<close>. Every Go function of the file is a
  HOL function of the same name. A panic of the Go runtime (index out of range, nil
  dereference, failed type assertion, the explicit \<^verbatim>\<open>panic\<close> of FindProperty, a read
  past the end of the stream) is the left injection of a sum; a normal return is the
  right injection, carrying every piece of state the Go code may have mutated. No
  function of the file recovers from a panic, and the state a panic leaves behind is
  not modelled.
\<close>

subsection \<open>Failures and machine integers\<close>

datatype error =
    UnexpectedEOF
  | IndexOutOfRange int
  | NilDereference
  | DuplicateProperty string
  | TypeAssertion
  | HandlerPanic string

text \<open>Sequencing of computations that may panic.\<close>

definition bindE :: "error + 'x \<Rightarrow> ('x \<Rightarrow> error + 'y) \<Rightarrow> error + 'y" where
  "bindE m f = (case m of Inl err \<Rightarrow> Inl err | Inr x \<Rightarrow> f x)"

text \<open>
  Go's \<^verbatim>\<open>int\<close> is a 64-bit two's complement integer. It is modelled by the HOL integer
  it denotes, and every arithmetic operation of the source on \<^verbatim>\<open>int\<close> is followed by
  \<open>wrap64\<close>, the reduction into \<open>[-2^63, 2^63)\<close>. Go's \<^verbatim>\<open>uint\<close> is a \<open>64 word\<close>.
\<close>

type_synonym go_int = int
type_synonym go_uint = "64 word"

definition wrap64 :: "int \<Rightarrow> go_int" where
  "wrap64 x = signed_take_bit 63 x"

definition int_add :: "go_int \<Rightarrow> go_int \<Rightarrow> go_int" where
  "int_add a b = wrap64 (a + b)"

definition int_sub :: "go_int \<Rightarrow> go_int \<Rightarrow> go_int" where
  "int_sub a b = wrap64 (a - b)"

definition int_mul :: "go_int \<Rightarrow> go_int \<Rightarrow> go_int" where
  "int_mul a b = wrap64 (a * b)"

text \<open>The conversion \<^verbatim>\<open>int(res)\<close> of a \<^verbatim>\<open>uint\<close> reinterprets the 64 bits as signed.\<close>

definition int_of_uint :: "go_uint \<Rightarrow> go_int" where
  "int_of_uint u = sint u"

text \<open>The conversion \<^verbatim>\<open>uint(x)\<close> of an \<^verbatim>\<open>int\<close>, as the shift count it is used for.\<close>

definition uint_of_int :: "go_int \<Rightarrow> nat" where
  "uint_of_int x = nat (x mod 2 ^ 64)"

text \<open>\<^verbatim>\<open>1 << n\<close> on \<^verbatim>\<open>int\<close>: a shift count of 64 or more leaves no bit.\<close>

definition shl_one :: "nat \<Rightarrow> go_int" where
  "shl_one n = (if n < 64 then wrap64 (2 ^ n) else 0)"

subsection \<open>The bit reader\<close>

text \<open>
  Modelled from the spec: package \<^verbatim>\<open>bitread\<close> is not part of the file. The spec gives
  \<^verbatim>\<open>read_bit() -> bool\<close> and \<^verbatim>\<open>read_uint(n) -> u64\<close> over a stateful cursor. The reader
  is the list of the bits not yet consumed; an n-bit unsigned integer is read least
  significant bit first; reading past the end of the stream panics.
\<close>

type_synonym BitReader = "bool list"

fun bits_le :: "bool list \<Rightarrow> nat" where
  "bits_le [] = 0"
| "bits_le (b # bs) = (if b then 1 else 0) + 2 * bits_le bs"

definition ReadBit :: "BitReader \<Rightarrow> error + (bool \<times> BitReader)" where
  "ReadBit r = (case r of [] \<Rightarrow> Inl UnexpectedEOF | b # r' \<Rightarrow> Inr (b, r'))"

definition ReadInt :: "nat \<Rightarrow> BitReader \<Rightarrow> error + (go_uint \<times> BitReader)" where
  "ReadInt n r =
     (if length r < n then Inl UnexpectedEOF
      else Inr (word_of_nat (bits_le (take n r)), drop n r))"

subsection \<open>readFieldIndex\<close>

text \<open>
  \<^verbatim>\<open>newWay && reader.ReadBit()\<close>: the bit is read only when \<^verbatim>\<open>newWay\<close> is set.
\<close>

definition readFieldIndex :: "BitReader \<Rightarrow> go_int \<Rightarrow> bool \<Rightarrow> error + (go_int \<times> BitReader)" where
  "readFieldIndex reader lastIndex newWay =
     bindE (if newWay then ReadBit reader else Inr (False, reader)) (\<lambda>(a, r1).
       if a then Inr (int_add lastIndex 1, r1)
       else
         bindE (if newWay then ReadBit r1 else Inr (False, r1)) (\<lambda>(b, r2).
           bindE
             (if b then ReadInt 3 r2
              else
                bindE (ReadInt 7 r2) (\<lambda>(res, r3).
                  if res AND (32 OR 64) = 32 then
                    bindE (ReadInt 2 r3) (\<lambda>(x, r4). Inr ((res AND NOT 96) OR push_bit 5 x, r4))
                  else if res AND (32 OR 64) = 64 then
                    bindE (ReadInt 4 r3) (\<lambda>(x, r4). Inr ((res AND NOT 96) OR push_bit 5 x, r4))
                  else if res AND (32 OR 64) = 96 then
                    bindE (ReadInt 7 r3) (\<lambda>(x, r4). Inr ((res AND NOT 96) OR push_bit 5 x, r4))
                  else Inr (res, r3)))
             (\<lambda>(res, r5).
                if res = 0xfff then Inr (- 1, r5)
                else Inr (int_add (int_add lastIndex 1) (int_of_uint res), r5))))"

text \<open>
  The algorithm of the specification (section 4.1), in its own words: offsets are
  natural numbers, bits 5 and 6 of the 7-bit value are inspected as the pattern
  \<open>res mod 128 - res mod 32\<close> and replaced arithmetically.
\<close>

definition read_bit :: "BitReader \<Rightarrow> error + (bool \<times> BitReader)" where
  "read_bit r = ReadBit r"

definition read_uint :: "nat \<Rightarrow> BitReader \<Rightarrow> error + (nat \<times> BitReader)" where
  "read_uint n r = bindE (ReadInt n r) (\<lambda>(x, r'). Inr (unat x, r'))"

definition replace_bits_5_6 :: "nat \<Rightarrow> nat \<Rightarrow> nat" where
  "replace_bits_5_6 res ext = res mod 32 + 32 * ext"

definition spec_raw_offset :: "bool \<Rightarrow> BitReader \<Rightarrow> error + (nat \<times> BitReader)" where
  "spec_raw_offset new_way r =
     bindE (if new_way then read_bit r else Inr (False, r)) (\<lambda>(b, r2).
       if b then read_uint 3 r2
       else
         bindE (read_uint 7 r2) (\<lambda>(res, r3).
           let pattern = res mod 128 - res mod 32 in
           if pattern = 32 then
             bindE (read_uint 2 r3) (\<lambda>(ext, r4). Inr (replace_bits_5_6 res ext, r4))
           else if pattern = 64 then
             bindE (read_uint 4 r3) (\<lambda>(ext, r4). Inr (replace_bits_5_6 res ext, r4))
           else if pattern = 96 then
             bindE (read_uint 7 r3) (\<lambda>(ext, r4). Inr (replace_bits_5_6 res ext, r4))
           else Inr (res, r3)))"

definition spec_field_index :: "BitReader \<Rightarrow> go_int \<Rightarrow> bool \<Rightarrow> error + (go_int \<times> BitReader)" where
  "spec_field_index r previous new_way =
     bindE (if new_way then read_bit r else Inr (False, r)) (\<lambda>(a, r1).
       if a then Inr (wrap64 (previous + 1), r1)
       else
         bindE (spec_raw_offset new_way r1) (\<lambda>(res, r').
           if res = 4095 then Inr (- 1, r')
           else Inr (wrap64 (previous + 1 + int res), r')))"


subsection \<open>Property values, properties and entities\<close>

text \<open>
  \<^verbatim>\<open>r3.Vector\<close> of package golang/geo: three \<^verbatim>\<open>float64\<close> components. Floating-point
  numbers are not interpreted: \<^verbatim>\<open>float32\<close> is the type variable \<open>'f\<close>, \<^verbatim>\<open>float64\<close> the
  type variable \<open>'d\<close>, and the floating-point operations the source applies (the
  conversions \<^verbatim>\<open>float64(_)\<close> and the addition) are parameters of the functions that
  use them.
\<close>

datatype 'd Vector = Vector (X: 'd) (Y: 'd) (Z: 'd)

text \<open>
  Modelled from the spec: the declaration of \<^verbatim>\<open>PropertyValue\<close> is in another file of the
  package. The fields are the ones entity.go selects (\<^verbatim>\<open>IntVal\<close>, \<^verbatim>\<open>FloatVal\<close>,
  \<^verbatim>\<open>StringVal\<close>, \<^verbatim>\<open>VectorVal\<close>, \<^verbatim>\<open>ArrayVal\<close>), with the types of section 3 of the spec.
  entity.go reads each field of any value, so the value is a struct of five fields.
\<close>

datatype ('f, 'd) PropertyValue =
  PropertyValue (IntVal: go_int) (FloatVal: 'f) (StringVal: string)
    (VectorVal: "'d Vector") (ArrayVal: "('f, 'd) PropertyValue list")

text \<open>
  Modelled from the spec: \<^verbatim>\<open>flattenedPropEntry\<close> is declared in another file; entity.go
  reads its \<^verbatim>\<open>name\<close>. What the value decoder needs of an entry is the field \<open>sendProp\<close>.
\<close>

record 'p flattenedPropEntry =
  name :: string
  sendProp :: 'p

text \<open>
  A \<^verbatim>\<open>PropertyUpdateHandler\<close> is a Go closure: it receives the value and may change
  any state it has captured, or panic. It is a function on that state, the world
  \<open>'w\<close>; \<open>None\<close> is the nil function. Handlers do not reach the entity or the reader
  they are called from.
\<close>

type_synonym ('f, 'd, 'w) PropertyUpdateHandler =
  "(('f, 'd) PropertyValue \<Rightarrow> 'w \<Rightarrow> error + 'w) option"

type_synonym 'w callback = "('w \<Rightarrow> error + 'w) option"

record ('f, 'd, 'p, 'w) Property =
  entry :: "'p flattenedPropEntry"
  updateHandlers :: "('f, 'd, 'w) PropertyUpdateHandler list"
  val :: "('f, 'd) PropertyValue"

record ('f, 'd, 'p, 'w) Entity =
  serverClass :: nat
  entity_id :: go_int
  props :: "('f, 'd, 'p, 'w) Property list"
  onCreateFinished :: "'w callback list"
  onDestroy :: "'w callback list"

definition ServerClass :: "('f, 'd, 'p, 'w) Entity \<Rightarrow> nat" where
  "ServerClass e = serverClass e"

definition ID :: "('f, 'd, 'p, 'w) Entity \<Rightarrow> go_int" where
  "ID e = entity_id e"

definition Properties :: "('f, 'd, 'p, 'w) Entity \<Rightarrow> ('f, 'd, 'p, 'w) Property list" where
  "Properties e = props e"

definition Name :: "('f, 'd, 'p, 'w) Property \<Rightarrow> string" where
  "Name pe = name (entry pe)"

definition Value :: "('f, 'd, 'p, 'w) Property \<Rightarrow> ('f, 'd) PropertyValue" where
  "Value pe = val pe"

subsection \<open>FindProperty\<close>

text \<open>
  The pointer \<^verbatim>\<open>&e.props[i]\<close> is the position \<open>i\<close>; the nil pointer is \<open>None\<close>.
  The loop carries the position \<open>i\<close> and the variable \<^verbatim>\<open>prop\<close>.
\<close>

fun FindProperty_loop ::
  "('f, 'd, 'p, 'w) Property list \<Rightarrow> string \<Rightarrow> nat \<Rightarrow> nat option \<Rightarrow> error + nat option" where
  "FindProperty_loop [] nm i prp = Inr prp"
| "FindProperty_loop (p # ps) nm i prp =
     (if name (entry p) = nm then
        (if prp \<noteq> None then Inl (DuplicateProperty nm)
         else FindProperty_loop ps nm (Suc i) (Some i))
      else FindProperty_loop ps nm (Suc i) prp)"

definition FindProperty :: "('f, 'd, 'p, 'w) Entity \<Rightarrow> string \<Rightarrow> error + nat option" where
  "FindProperty e nm = FindProperty_loop (props e) nm 0 None"

subsection \<open>Handlers\<close>

definition OnUpdate ::
  "('f, 'd, 'p, 'w) Property \<Rightarrow> ('f, 'd, 'w) PropertyUpdateHandler \<Rightarrow> ('f, 'd, 'p, 'w) Property" where
  "OnUpdate pe handler = pe\<lparr>updateHandlers := updateHandlers pe @ [handler]\<rparr>"

fun firePropertyUpdate_loop ::
  "('f, 'd, 'w) PropertyUpdateHandler list \<Rightarrow> ('f, 'd) PropertyValue \<Rightarrow> 'w \<Rightarrow> error + 'w" where
  "firePropertyUpdate_loop [] v w = Inr w"
| "firePropertyUpdate_loop (None # hs) v w = firePropertyUpdate_loop hs v w"
| "firePropertyUpdate_loop (Some h # hs) v w = bindE (h v w) (firePropertyUpdate_loop hs v)"

definition firePropertyUpdate :: "('f, 'd, 'p, 'w) Property \<Rightarrow> 'w \<Rightarrow> error + 'w" where
  "firePropertyUpdate pe w = firePropertyUpdate_loop (updateHandlers pe) (val pe) w"

subsection \<open>ApplyUpdate\<close>

text \<open>
  Modelled from the spec: \<^verbatim>\<open>propDecoder.decodeProp\<close> is in another file. By section 4.2
  it decodes the property's new value from the reader, directed by the property's
  entry. The rule is the parameter \<open>dec\<close>; the decoded value becomes the property's
  current value.
\<close>

type_synonym ('f, 'd, 'p) decoder =
  "'p flattenedPropEntry \<Rightarrow> BitReader \<Rightarrow> error + (('f, 'd) PropertyValue \<times> BitReader)"

definition decodeProp ::
  "('f, 'd, 'p) decoder \<Rightarrow> ('f, 'd, 'p, 'w) Property \<Rightarrow> BitReader
     \<Rightarrow> error + (('f, 'd, 'p, 'w) Property \<times> BitReader)" where
  "decodeProp dec pe reader = bindE (dec (entry pe) reader) (\<lambda>(v, r'). Inr (pe\<lparr>val := v\<rparr>, r'))"

text \<open>
  The first loop of ApplyUpdate. The slice taken from \<^verbatim>\<open>updatedPropIndicesPool\<close> is
  empty: a new one has length 0 and every slice is cut to length 0 before it is put
  back.
\<close>

function ApplyUpdate_indices ::
  "BitReader \<Rightarrow> go_int \<Rightarrow> bool \<Rightarrow> go_int list \<Rightarrow> error + (go_int list \<times> BitReader)" where
  "ApplyUpdate_indices reader idx newWay updatedPropIndices =
     (case readFieldIndex reader idx newWay of
        Inl err \<Rightarrow> Inl err
      | Inr (idx', reader') \<Rightarrow>
          if idx' \<noteq> - 1 then
            ApplyUpdate_indices reader' idx' newWay (updatedPropIndices @ [idx'])
          else Inr (updatedPropIndices, reader'))"
  by pat_completeness auto
termination
proof (relation "measure (\<lambda>(reader, idx, newWay, acc). length reader)")
  show "wf (measure (\<lambda>(reader, idx, newWay, acc). length reader))" by simp
next
  fix reader :: BitReader and idx :: go_int and newWay :: bool
    and updatedPropIndices :: "go_int list" and x2 :: "go_int \<times> BitReader"
    and idx' :: go_int and reader' :: BitReader
  assume rd: "readFieldIndex reader idx newWay = Inr x2" and x2: "(idx', reader') = x2"
    and ne: "idx' \<noteq> - 1"
  have ri: "length r' \<le> length r" if "ReadInt n r = Inr (x, r')" for n r x r'
    using that by (auto simp: ReadInt_def split: if_splits)
  have ri7: "length r' < length r" if "ReadInt 7 r = Inr (x, r')" for r x r'
    using that by (auto simp: ReadInt_def split: if_splits)
  have ri3: "length r' < length r" if "ReadInt 3 r = Inr (x, r')" for r x r'
    using that by (auto simp: ReadInt_def split: if_splits)
  have rb: "length r' < length r" if "ReadBit r = Inr (x, r')" for r x r'
    using that by (auto simp: ReadBit_def split: list.splits)
  have "length reader' < length reader"
    using rd x2 unfolding readFieldIndex_def bindE_def
    by (auto split: sum.splits prod.splits if_splits
          dest!: rb ri ri7 ri3)
  then show "((reader', idx', newWay, updatedPropIndices @ [idx']),
              (reader, idx, newWay, updatedPropIndices))
             \<in> measure (\<lambda>(reader, idx, newWay, acc). length reader)"
    by simp
qed

declare ApplyUpdate_indices.simps [simp del]

text \<open>The second loop of ApplyUpdate; \<^verbatim>\<open>e.props[idx]\<close> panics outside the slice.\<close>

fun ApplyUpdate_props ::
  "('f, 'd, 'p) decoder \<Rightarrow> ('f, 'd, 'p, 'w) Property list \<Rightarrow> go_int list \<Rightarrow> BitReader \<Rightarrow> 'w
     \<Rightarrow> error + (('f, 'd, 'p, 'w) Property list \<times> BitReader \<times> 'w)" where
  "ApplyUpdate_props dec ps [] reader w = Inr (ps, reader, w)"
| "ApplyUpdate_props dec ps (idx # idxs) reader w =
     (if 0 \<le> idx \<and> idx < int (length ps) then
        bindE (decodeProp dec (ps ! nat idx) reader) (\<lambda>(pe, reader').
          bindE (firePropertyUpdate pe w) (\<lambda>w'.
            ApplyUpdate_props dec (ps[nat idx := pe]) idxs reader' w'))
      else Inl (IndexOutOfRange idx))"

definition ApplyUpdate ::
  "('f, 'd, 'p) decoder \<Rightarrow> ('f, 'd, 'p, 'w) Entity \<Rightarrow> BitReader \<Rightarrow> 'w
     \<Rightarrow> error + (('f, 'd, 'p, 'w) Entity \<times> BitReader \<times> 'w)" where
  "ApplyUpdate dec e reader w =
     bindE (ReadBit reader) (\<lambda>(newWay, r1).
       bindE (ApplyUpdate_indices r1 (- 1) newWay []) (\<lambda>(updatedPropIndices, r2).
         bindE (ApplyUpdate_props dec (props e) updatedPropIndices r2 w) (\<lambda>(ps, r3, w').
           Inr (e\<lparr>props := ps\<rparr>, r3, w'))))"


subsection \<open>Baselines\<close>

text \<open>
  A Go map \<^verbatim>\<open>map[int]PropertyValue\<close> is an association list with distinct keys;
  \<^verbatim>\<open>baseline[k] = v\<close> is \<open>AList.update k v\<close>, and a \<^verbatim>\<open>range\<close> over the map visits the
  pairs of the list.

  The closure \<^verbatim>\<open>adder\<close> captures the map \<^verbatim>\<open>baseline\<close> that initializeBaseline has just
  made. While initializeBaseline runs, the world is therefore the pair of that map and
  of the world \<open>'w\<close> of the callers; the handlers and callbacks registered before act on
  the second component.
\<close>

type_synonym ('f, 'd) baseline = "(go_int \<times> ('f, 'd) PropertyValue) list"

definition adder :: "go_int \<Rightarrow> ('f, 'd, ('f, 'd) baseline \<times> 'w) PropertyUpdateHandler" where
  "adder i2 = Some (\<lambda>v (baseline, w). Inr (AList.update i2 v baseline, w))"

definition lift_handler ::
  "('f, 'd, 'w) PropertyUpdateHandler \<Rightarrow> ('f, 'd, 'b \<times> 'w) PropertyUpdateHandler" where
  "lift_handler h = map_option (\<lambda>f v (b, w). bindE (f v w) (\<lambda>w'. Inr (b, w'))) h"

definition lift_callback :: "'w callback \<Rightarrow> ('b \<times> 'w) callback" where
  "lift_callback c = map_option (\<lambda>f (b, w). bindE (f w) (\<lambda>w'. Inr (b, w'))) c"

definition lift_property ::
  "('f, 'd, 'p, 'w) Property \<Rightarrow> ('f, 'd, 'p, 'b \<times> 'w) Property" where
  "lift_property pe =
     \<lparr>entry = entry pe, updateHandlers = map lift_handler (updateHandlers pe), val = val pe\<rparr>"

definition lift_entity ::
  "('f, 'd, 'p, 'w) Entity \<Rightarrow> ('f, 'd, 'p, 'b \<times> 'w) Entity" where
  "lift_entity e =
     \<lparr>serverClass = serverClass e, entity_id = entity_id e,
      props = map lift_property (props e),
      onCreateFinished = map lift_callback (onCreateFinished e),
      onDestroy = map lift_callback (onDestroy e)\<rparr>"

text \<open>\<^verbatim>\<open>e.props[i].updateHandlers = nil\<close>; no handler is left to refer to the map.\<close>

definition clear_handlers ::
  "('f, 'd, 'p, 'b \<times> 'w) Property \<Rightarrow> ('f, 'd, 'p, 'w) Property" where
  "clear_handlers pe = \<lparr>entry = entry pe, updateHandlers = [], val = val pe\<rparr>"

text \<open>The first loop of initializeBaseline, from position \<open>i\<close> on.\<close>

fun initializeBaseline_attach ::
  "nat \<Rightarrow> ('f, 'd, 'p, ('f, 'd) baseline \<times> 'w) Property list
     \<Rightarrow> ('f, 'd, 'p, ('f, 'd) baseline \<times> 'w) Property list" where
  "initializeBaseline_attach i [] = []"
| "initializeBaseline_attach i (pe # ps) =
     OnUpdate pe (adder (int i)) # initializeBaseline_attach (Suc i) ps"

definition initializeBaseline ::
  "('f, 'd, 'p) decoder \<Rightarrow> ('f, 'd, 'p, 'w) Entity \<Rightarrow> BitReader \<Rightarrow> 'w
     \<Rightarrow> error + (('f, 'd) baseline \<times> ('f, 'd, 'p, 'w) Entity \<times> BitReader \<times> 'w)" where
  "initializeBaseline dec e r w =
     (let e0 = lift_entity e;
          e1 = e0\<lparr>props := initializeBaseline_attach 0 (props e0)\<rparr>
      in bindE (ApplyUpdate dec e1 r ([], w)) (\<lambda>(e2, r', (baseline, w')).
           Inr (baseline, e\<lparr>props := map clear_handlers (props e2)\<rparr>, r', w')))"

fun applyBaseline_loop ::
  "('f, 'd) baseline \<Rightarrow> ('f, 'd, 'p, 'w) Property list \<Rightarrow> error + ('f, 'd, 'p, 'w) Property list" where
  "applyBaseline_loop [] ps = Inr ps"
| "applyBaseline_loop ((idx, v) # baseline) ps =
     (if 0 \<le> idx \<and> idx < int (length ps) then
        applyBaseline_loop baseline (ps[nat idx := (ps ! nat idx)\<lparr>val := v\<rparr>])
      else Inl (IndexOutOfRange idx))"

definition applyBaseline ::
  "('f, 'd, 'p, 'w) Entity \<Rightarrow> ('f, 'd) baseline \<Rightarrow> error + ('f, 'd, 'p, 'w) Entity" where
  "applyBaseline e baseline =
     bindE (applyBaseline_loop baseline (props e)) (\<lambda>ps. Inr (e\<lparr>props := ps\<rparr>))"

subsection \<open>Position\<close>

definition maxCoordInt :: go_int where
  "maxCoordInt = 16384"

text \<open>\<^verbatim>\<open>e.FindProperty(nm).value\<close>: the nil pointer cannot be dereferenced.\<close>

definition FindProperty_value ::
  "('f, 'd, 'p, 'w) Entity \<Rightarrow> string \<Rightarrow> error + ('f, 'd) PropertyValue" where
  "FindProperty_value e nm =
     bindE (FindProperty e nm) (\<lambda>ptr.
       case ptr of None \<Rightarrow> Inl NilDereference | Some i \<Rightarrow> Inr (val (props e ! i)))"

text \<open>
  \<open>float64_of_int\<close> is the conversion \<^verbatim>\<open>float64(_)\<close> of an \<^verbatim>\<open>int\<close> and \<open>float64_add\<close> the
  addition of \<^verbatim>\<open>float64\<close>.
\<close>

definition coordFromCell ::
  "(go_int \<Rightarrow> 'd) \<Rightarrow> ('d \<Rightarrow> 'd \<Rightarrow> 'd) \<Rightarrow> go_int \<Rightarrow> go_int \<Rightarrow> 'd \<Rightarrow> 'd" where
  "coordFromCell float64_of_int float64_add cell cellWidth offset =
     float64_add (float64_of_int (int_sub (int_mul cell cellWidth) maxCoordInt)) offset"

definition Position ::
  "(go_int \<Rightarrow> 'd) \<Rightarrow> ('d \<Rightarrow> 'd \<Rightarrow> 'd) \<Rightarrow> ('f, 'd, 'p, 'w) Entity \<Rightarrow> error + 'd Vector" where
  "Position float64_of_int float64_add e =
     bindE (FindProperty_value e ''m_cellbits'') (\<lambda>v0.
       let cellWidth = shl_one (uint_of_int (IntVal v0)) in
       bindE (FindProperty_value e ''m_cellX'') (\<lambda>v1.
         let cellX = IntVal v1 in
         bindE (FindProperty_value e ''m_cellY'') (\<lambda>v2.
           let cellY = IntVal v2 in
           bindE (FindProperty_value e ''m_cellZ'') (\<lambda>v3.
             let cellZ = IntVal v3 in
             bindE (FindProperty_value e ''m_vecOrigin'') (\<lambda>v4.
               let offset = VectorVal v4 in
               Inr (Vector
                 (coordFromCell float64_of_int float64_add cellX cellWidth (X offset))
                 (coordFromCell float64_of_int float64_add cellY cellWidth (Y offset))
                 (coordFromCell float64_of_int float64_add cellZ cellWidth (Z offset))))))))"

subsection \<open>Lifecycle callbacks\<close>

definition OnDestroy :: "('f, 'd, 'p, 'w) Entity \<Rightarrow> 'w callback \<Rightarrow> ('f, 'd, 'p, 'w) Entity" where
  "OnDestroy e delegate = e\<lparr>onDestroy := onDestroy e @ [delegate]\<rparr>"

text \<open>Calling a nil function panics.\<close>

fun Destroy_loop :: "'w callback list \<Rightarrow> 'w \<Rightarrow> error + 'w" where
  "Destroy_loop [] w = Inr w"
| "Destroy_loop (None # fs) w = Inl NilDereference"
| "Destroy_loop (Some f # fs) w = bindE (f w) (Destroy_loop fs)"

definition Destroy :: "('f, 'd, 'p, 'w) Entity \<Rightarrow> 'w \<Rightarrow> error + 'w" where
  "Destroy e w = Destroy_loop (onDestroy e) w"

definition OnCreateFinished ::
  "('f, 'd, 'p, 'w) Entity \<Rightarrow> 'w callback \<Rightarrow> ('f, 'd, 'p, 'w) Entity" where
  "OnCreateFinished e delegate = e\<lparr>onCreateFinished := onCreateFinished e @ [delegate]\<rparr>"

subsection \<open>Bind\<close>

definition ValTypeInt :: int where "ValTypeInt = 0"
definition ValTypeFloat32 :: int where "ValTypeFloat32 = 1"
definition ValTypeFloat64 :: int where "ValTypeFloat64 = 2"
definition ValTypeString :: int where "ValTypeString = 3"
definition ValTypeVector :: int where "ValTypeVector = 4"
definition ValTypeArray :: int where "ValTypeArray = 5"
definition ValTypeBoolInt :: int where "ValTypeBoolInt = 6"

text \<open>
  The argument \<^verbatim>\<open>variable interface{}\<close> holds a pointer. The variables a caller can
  bind live in a store with one region for each pointer type; a pointer is the address
  in the region of its type. \<open>OtherValue\<close> is any other content of the interface, for
  which every type assertion of Bind panics.
\<close>

type_synonym addr = nat

datatype variable =
    PtrInt addr
  | PtrBool addr
  | PtrFloat32 addr
  | PtrFloat64 addr
  | PtrString addr
  | PtrVector addr
  | PtrArray addr
  | OtherValue

record ('f, 'd) store =
  intVars :: "addr \<Rightarrow> go_int"
  boolVars :: "addr \<Rightarrow> bool"
  float32Vars :: "addr \<Rightarrow> 'f"
  float64Vars :: "addr \<Rightarrow> 'd"
  stringVars :: "addr \<Rightarrow> string"
  vectorVars :: "addr \<Rightarrow> 'd Vector"
  arrayVars :: "addr \<Rightarrow> ('f, 'd) PropertyValue list"

text \<open>\<open>float64\<close> is the conversion \<^verbatim>\<open>float64(_)\<close> of a \<^verbatim>\<open>float32\<close>.\<close>

definition Bind ::
  "('f \<Rightarrow> 'd) \<Rightarrow> ('f, 'd, 'p, ('f, 'd, 'z) store_scheme) Property \<Rightarrow> variable \<Rightarrow> int
     \<Rightarrow> ('f, 'd, 'p, ('f, 'd, 'z) store_scheme) Property" where
  "Bind float64 pe var valueType =
     (let binder =
        (if valueType = ValTypeInt then
           Some (\<lambda>v w. case var of
                   PtrInt a \<Rightarrow> Inr (w\<lparr>intVars := (intVars w)(a := IntVal v)\<rparr>)
                 | _ \<Rightarrow> Inl TypeAssertion)
         else if valueType = ValTypeBoolInt then
           Some (\<lambda>v w. case var of
                   PtrBool a \<Rightarrow> Inr (w\<lparr>boolVars := (boolVars w)(a := (IntVal v = 1))\<rparr>)
                 | _ \<Rightarrow> Inl TypeAssertion)
         else if valueType = ValTypeFloat32 then
           Some (\<lambda>v w. case var of
                   PtrFloat32 a \<Rightarrow> Inr (w\<lparr>float32Vars := (float32Vars w)(a := FloatVal v)\<rparr>)
                 | _ \<Rightarrow> Inl TypeAssertion)
         else if valueType = ValTypeFloat64 then
           Some (\<lambda>v w. case var of
                   PtrFloat64 a \<Rightarrow>
                     Inr (w\<lparr>float64Vars := (float64Vars w)(a := float64 (FloatVal v))\<rparr>)
                 | _ \<Rightarrow> Inl TypeAssertion)
         else if valueType = ValTypeString then
           Some (\<lambda>v w. case var of
                   PtrString a \<Rightarrow> Inr (w\<lparr>stringVars := (stringVars w)(a := StringVal v)\<rparr>)
                 | _ \<Rightarrow> Inl TypeAssertion)
         else if valueType = ValTypeVector then
           Some (\<lambda>v w. case var of
                   PtrVector a \<Rightarrow> Inr (w\<lparr>vectorVars := (vectorVars w)(a := VectorVal v)\<rparr>)
                 | _ \<Rightarrow> Inl TypeAssertion)
         else if valueType = ValTypeArray then
           Some (\<lambda>v w. case var of
                   PtrArray a \<Rightarrow> Inr (w\<lparr>arrayVars := (arrayVars w)(a := ArrayVal v)\<rparr>)
                 | _ \<Rightarrow> Inl TypeAssertion)
         else None)
      in OnUpdate pe binder)"

text \<open>
  \<^verbatim>\<open>e.FindProperty(name).Bind(variable, valueType)\<close>: on the nil pointer, Bind builds the
  closure and then panics in OnUpdate, which reads \<^verbatim>\<open>pe.updateHandlers\<close>.
\<close>

definition BindProperty ::
  "('f \<Rightarrow> 'd) \<Rightarrow> ('f, 'd, 'p, ('f, 'd, 'z) store_scheme) Entity \<Rightarrow> string \<Rightarrow> variable \<Rightarrow> int
     \<Rightarrow> error + ('f, 'd, 'p, ('f, 'd, 'z) store_scheme) Entity" where
  "BindProperty float64 e nm var valueType =
     bindE (FindProperty e nm) (\<lambda>ptr.
       case ptr of
         None \<Rightarrow> Inl NilDereference
       | Some i \<Rightarrow> Inr (e\<lparr>props := (props e)[i := Bind float64 (props e ! i) var valueType]\<rparr>))"


subsection \<open>The update loop, as section 4.2 of the spec describes it\<close>

text \<open>
  For each index in list order: decode the value of that property from the reader
  (\<open>decode_in_order\<close>), fire its handlers in list order with the new value
  (\<open>fire_in_order\<close>), and keep the value as the current one (\<open>store_values\<close>).
\<close>

fun decode_in_order ::
  "('f, 'd, 'p) decoder \<Rightarrow> 'p flattenedPropEntry list \<Rightarrow> go_int list \<Rightarrow> BitReader
     \<Rightarrow> error + (('f, 'd) PropertyValue list \<times> BitReader)" where
  "decode_in_order dec es [] r = Inr ([], r)"
| "decode_in_order dec es (idx # idxs) r =
     bindE (dec (es ! nat idx) r) (\<lambda>(v, r1).
       bindE (decode_in_order dec es idxs r1) (\<lambda>(vs, r2). Inr (v # vs, r2)))"

fun fire_in_order ::
  "('f, 'd, 'w) PropertyUpdateHandler list list \<Rightarrow> go_int list \<Rightarrow> ('f, 'd) PropertyValue list
     \<Rightarrow> 'w \<Rightarrow> error + 'w" where
  "fire_in_order hss (idx # idxs) (v # vs) w =
     bindE (firePropertyUpdate_loop (hss ! nat idx) v w) (fire_in_order hss idxs vs)"
| "fire_in_order hss idxs vs w = Inr w"

fun store_values ::
  "('f, 'd, 'p, 'w) Property list \<Rightarrow> go_int list \<Rightarrow> ('f, 'd) PropertyValue list
     \<Rightarrow> ('f, 'd, 'p, 'w) Property list" where
  "store_values ps (idx # idxs) (v # vs) =
     store_values (ps[nat idx := (ps ! nat idx)\<lparr>val := v\<rparr>]) idxs vs"
| "store_values ps idxs vs = ps"

text \<open>
  A handler that records its call: the position of its property, its own position in
  the handler list, and the value it received. The world is the list of the calls.
\<close>

definition log_handler ::
  "nat \<Rightarrow> nat \<Rightarrow> ('f, 'd, (nat \<times> nat \<times> ('f, 'd) PropertyValue) list) PropertyUpdateHandler" where
  "log_handler i j = Some (\<lambda>v w. Inr (w @ [(i, j, v)]))"

text \<open>
  The value of the property named \<open>nm\<close>, for stating what Position computes: the
  value of the first property of that name.
\<close>

definition property_value :: "('f, 'd, 'p, 'w) Entity \<Rightarrow> string \<Rightarrow> ('f, 'd) PropertyValue" where
  "property_value e nm = val (the (find (\<lambda>p. name (entry p) = nm) (props e)))"

subsection \<open>Concrete entities and streams\<close>

text \<open>
  Small instances on which the functions are evaluated. Floating-point values are the
  reals they denote. \<open>example_decoder\<close> reads eight bits into the integer field.
  \<open>example_stream\<close> is one update record: the flag, the index 0 (one bit), the index 3
  (two bits and the offset 2 on three bits), the end marker (two bits and the offset
  \<open>0xFFF\<close> on fourteen bits), and the two values 5 and 6.
\<close>

definition example_value :: "int \<Rightarrow> real Vector \<Rightarrow> (real, real) PropertyValue" where
  "example_value i v = PropertyValue i 0 [] v []"

definition example_prop :: "string \<Rightarrow> (real, real) PropertyValue \<Rightarrow> (real, real, unit, 'w) Property" where
  "example_prop nm v = \<lparr>entry = \<lparr>name = nm, sendProp = ()\<rparr>, updateHandlers = [], val = v\<rparr>"

definition example_entity :: "(real, real, unit, 'w) Property list \<Rightarrow> (real, real, unit, 'w) Entity" where
  "example_entity ps = \<lparr>serverClass = 0, entity_id = 1, props = ps, onCreateFinished = [], onDestroy = []\<rparr>"

definition example_decoder :: "(real, real, unit) decoder" where
  "example_decoder en r = bindE (ReadInt 8 r) (\<lambda>(x, r'). Inr (example_value (int (unat x)) (Vector 0 0 0), r'))"

definition log_callback :: "nat \<Rightarrow> nat list callback" where
  "log_callback k = Some (\<lambda>w. Inr (w @ [k]))"

definition abc_entity :: "(real, real, unit, 'w) Entity" where
  "abc_entity = example_entity
     [example_prop ''a'' (example_value 1 (Vector 0 0 0)),
      example_prop ''b'' (example_value 2 (Vector 0 0 0)),
      example_prop ''c'' (example_value 3 (Vector 0 0 0)),
      example_prop ''b'' (example_value 4 (Vector 0 0 0))]"

definition end_marker :: BitReader where
  "end_marker = [False, False] @ replicate 14 True"

definition example_stream :: BitReader where
  "example_stream =
     [True] @ [True] @ [False, True, False, True, False] @ end_marker
     @ [True, False, True] @ replicate 5 False @ [False, True, True] @ replicate 5 False"

definition cell_entity :: "(real, real, unit, unit) Entity" where
  "cell_entity = example_entity
     [example_prop ''m_cellbits'' (example_value 5 (Vector 0 0 0)),
      example_prop ''m_cellX'' (example_value 10 (Vector 0 0 0)),
      example_prop ''m_cellY'' (example_value 0 (Vector 0 0 0)),
      example_prop ''m_cellZ'' (example_value 0 (Vector 0 0 0)),
      example_prop ''m_vecOrigin'' (example_value 0 (Vector (3 / 2) 0 0))]"

text \<open>
  The entity a, b, c, d with two, one, no and two recording handlers, and a record
  whose indices are 0 and 5, for an entity of four properties.
\<close>

definition logged_entity ::
  "(real, real, unit, (nat \<times> nat \<times> (real, real) PropertyValue) list) Entity" where
  "logged_entity = example_entity
     [(example_prop ''a'' (example_value 1 (Vector 0 0 0)))
        \<lparr>updateHandlers := [log_handler 0 0, log_handler 0 1]\<rparr>,
      (example_prop ''b'' (example_value 2 (Vector 0 0 0)))
        \<lparr>updateHandlers := [log_handler 1 0]\<rparr>,
      example_prop ''c'' (example_value 3 (Vector 0 0 0)),
      (example_prop ''d'' (example_value 4 (Vector 0 0 0)))
        \<lparr>updateHandlers := [log_handler 3 0, log_handler 3 1]\<rparr>]"

definition overlong_stream :: BitReader where
  "overlong_stream =
     [True] @ [True] @ [False, True, False, False, True] @ end_marker
     @ [True, False, True] @ replicate 5 False"

text \<open>An entity with the entries of \<open>abc_entity\<close>, no handler and the value 0 everywhere.\<close>

definition fresh_entity :: "(real, real, unit, 'w) Entity" where
  "fresh_entity = example_entity
     [example_prop ''a'' (example_value 0 (Vector 0 0 0)),
      example_prop ''b'' (example_value 0 (Vector 0 0 0)),
      example_prop ''c'' (example_value 0 (Vector 0 0 0)),
      example_prop ''b'' (example_value 0 (Vector 0 0 0))]"

section \<open>Properties\<close>

subsection \<open>Reading words from the stream\<close>


lemma bits_le_bound: "bits_le bs < 2 ^ length bs"
  by (induction bs) auto

lemma unat_word_of_nat_small: "k < 2 ^ n \<Longrightarrow> n \<le> 64 \<Longrightarrow> unat (word_of_nat k :: 64 word) = k"
proof -
  assume a: "k < 2 ^ n" "n \<le> 64"
  have "(2::nat) ^ n \<le> 2 ^ 64" using power_increasing[of n 64 "2::nat"] a(2) by simp
  then have "k < 2 ^ 64" using a(1) by linarith
  then show ?thesis by (simp add: unat_of_nat take_bit_nat_eq_self)
qed

lemma ReadInt_unat:
  assumes "ReadInt n r = Inr (x, r')" "n \<le> 64"
  shows "unat x < 2 ^ n \<and> r' = drop n r \<and> n \<le> length r"
proof -
  from assms(1) have len: "n \<le> length r" and x: "x = word_of_nat (bits_le (take n r))" and r': "r' = drop n r"
    by (auto simp: ReadInt_def split: if_splits)
  have "bits_le (take n r) < 2 ^ n" using bits_le_bound[of "take n r"] len by simp
  then show ?thesis using x r' len unat_word_of_nat_small[OF _ assms(2)] by simp
qed

lemma enum_and_not_96:
  "\<forall>n\<in>set [0..<128]. (word_of_nat n :: 64 word) AND NOT 96 = word_of_nat (n mod 32)"
  by code_simp

lemma enum_and_96:
  "\<forall>n\<in>set [0..<128]. unat ((word_of_nat n :: 64 word) AND (32 OR 64)) = n mod 128 - n mod 32"
  by code_simp

lemma and_not_96:
  assumes "unat (res :: 64 word) < 128"
  shows "res AND NOT 96 = word_of_nat (unat res mod 32)"
proof -
  have "unat res \<in> set [0..<128]" using assms by simp
  then have "(word_of_nat (unat res) :: 64 word) AND NOT 96 = word_of_nat (unat res mod 32)"
    using enum_and_not_96 by blast
  then show ?thesis by simp
qed

lemma and_96:
  assumes "unat (res :: 64 word) < 128"
  shows "unat (res AND (32 OR 64)) = unat res mod 128 - unat res mod 32"
proof -
  have "unat res \<in> set [0..<128]" using assms by simp
  then have "unat ((word_of_nat (unat res) :: 64 word) AND (32 OR 64)) = unat res mod 128 - unat res mod 32"
    using enum_and_96 by blast
  then show ?thesis by simp
qed

lemma take_bit_and_push_bit_nat: "take_bit 5 (a::nat) AND push_bit 5 y = 0"
  by (rule bit_eqI) (auto simp add: bit_simps)

lemma or_push_bit_nat: "(a::nat) < 32 \<Longrightarrow> a OR push_bit 5 y = a + 32 * y"
proof -
  assume "a < 32"
  then have "take_bit 5 a = a" by (simp add: take_bit_nat_eq_self)
  then have "a AND push_bit 5 y = 0" using take_bit_and_push_bit_nat[of a y] by simp
  then show ?thesis by (simp add: disjunctive_add_eq_or[symmetric] push_bit_eq_mult)
qed

lemma unat_push_bit_5: "unat (x::64 word) < 128 \<Longrightarrow> unat (push_bit 5 x) = push_bit 5 (unat x)"
proof -
  assume a: "unat x < 128"
  have "push_bit 5 (unat x) = 32 * unat x" by (simp add: push_bit_eq_mult)
  then have "push_bit 5 (unat x) < 2 ^ 64" using a by simp
  then show ?thesis by (simp add: unsigned_push_bit_eq take_bit_nat_eq_self)
qed

lemma unat_replace:
  assumes "unat (res::64 word) < 128" "unat (x::64 word) < 128"
  shows "unat ((res AND NOT 96) OR push_bit 5 x) = replace_bits_5_6 (unat res) (unat x)"
proof -
  have m: "unat res mod 32 < 32" by simp
  have u: "unat (word_of_nat (unat res mod 32) :: 64 word) = unat res mod 32"
    using unat_word_of_nat_small[of "unat res mod 32" 5] by simp
  have "unat ((res AND NOT 96) OR push_bit 5 x) = unat (res AND NOT 96) OR unat (push_bit 5 x)"
    by (rule unsigned_or_eq)
  also have "\<dots> = (unat res mod 32) OR push_bit 5 (unat x)"
    by (simp only: and_not_96[OF assms(1)] u unat_push_bit_5[OF assms(2)])
  also have "\<dots> = unat res mod 32 + 32 * unat x" by (rule or_push_bit_nat[OF m])
  finally show ?thesis by (simp add: replace_bits_5_6_def)
qed

lemma replace_bound: "r < 128 \<Longrightarrow> x < 128 \<Longrightarrow> replace_bits_5_6 r x \<le> 4095"
  by (simp add: replace_bits_5_6_def)

lemma int_of_uint_small: "unat (res::64 word) \<le> 4095 \<Longrightarrow> int_of_uint res = int (unat res)"
proof -
  assume a: "unat res \<le> 4095"
  have "int (unat res) \<le> 4095" using a by linarith
  then have le: "uint res \<le> 4095" by simp
  have ge: "0 \<le> uint res" by simp
  have "(- (2 ^ 63) :: int) \<le> 0" by simp
  then have lo: "- (2 ^ 63) \<le> uint res" using ge by (rule order_trans)
  have "(4095 :: int) < 2 ^ 63" by simp
  with le have hi: "uint res < 2 ^ 63" by (rule le_less_trans)
  from lo hi have "- (2 ^ 63) \<le> uint res \<and> uint res < 2 ^ 63" by (rule conjI)
  then have "signed_take_bit 63 (uint res) = uint res"
    by (simp only: signed_take_bit_int_eq_self)
  then have "sint res = uint res"
    by (simp add: sint_uint)
  then show ?thesis by (simp add: int_of_uint_def)
qed

lemma int_add_add: "int_add (int_add a 1) b = wrap64 (a + 1 + b)"
proof -
  have "signed_take_bit 63 (signed_take_bit 63 (a + 1) + b) = signed_take_bit 63 (a + 1 + b)"
    by (metis signed_take_bit_add signed_take_bit_signed_take_bit min.idem)
  then show ?thesis by (simp add: int_add_def wrap64_def)
qed

lemma word_eq_numeral_iff: "unat (res::64 word) \<le> 4095 \<Longrightarrow> (res = 0xfff) = (unat res = 4095)"
  by (simp add: word_unat_eq_iff)


lemma read_uint_Inr:
  "read_uint n r = (case ReadInt n r of Inl e \<Rightarrow> Inl e | Inr (x, r') \<Rightarrow> Inr (unat x, r'))"
  by (simp add: read_uint_def bindE_def split: sum.splits)

lemma ext_step:
  assumes "unat (res::64 word) < 128" "n \<le> 7"
  shows "bindE (bindE (ReadInt n r3) (\<lambda>(x, r4). Inr ((res AND NOT 96) OR push_bit 5 x, r4)))
           (\<lambda>(y, r'). Inr (unat y, r'))
         = bindE (read_uint n r3) (\<lambda>(ext, r4). Inr (replace_bits_5_6 (unat res) ext, r4))"
proof (cases "ReadInt n r3")
  case (Inl e)
  then show ?thesis by (simp add: bindE_def read_uint_def)
next
  case (Inr p)
  obtain x r4 where p: "p = (x, r4)" by (cases p)
  have "unat x < 2 ^ n" using ReadInt_unat[of n r3 x r4] Inr p assms(2) by simp
  moreover have "(2::nat) ^ n \<le> 2 ^ 7" using assms(2) power_increasing[of n 7 "2::nat"] by simp
  ultimately have "unat x < 128" by simp
  then have "unat ((res AND NOT 96) OR push_bit 5 x) = replace_bits_5_6 (unat res) (unat x)"
    using unat_replace[OF assms(1)] by blast
  then show ?thesis using Inr p by (simp add: bindE_def read_uint_def)
qed

lemma ext_bound:
  assumes "unat (res::64 word) < 128" "n \<le> 7"
    and "bindE (ReadInt n r3) (\<lambda>(x, r4). Inr ((res AND NOT 96) OR push_bit 5 x, r4)) = Inr (y, r')"
  shows "unat y \<le> 4095 \<and> length r' \<le> length r3"
proof -
  from assms(3) obtain x where rd: "ReadInt n r3 = Inr (x, r')" and y: "y = (res AND NOT 96) OR push_bit 5 x"
    by (auto simp: bindE_def split: sum.splits)
  have "unat x < 2 ^ n" using ReadInt_unat[OF rd] assms(2) by simp
  moreover have "(2::nat) ^ n \<le> 2 ^ 7" using assms(2) power_increasing[of n 7 "2::nat"] by simp
  ultimately have x: "unat x < 128" by simp
  have "unat y = replace_bits_5_6 (unat res) (unat x)" using unat_replace[OF assms(1) x] y by simp
  moreover have "r' = drop n r3" using ReadInt_unat[OF rd] assms(2) by simp
  ultimately show ?thesis using replace_bound[OF assms(1) x] by simp
qed

lemma pattern_iff:
  assumes "unat (res::64 word) < 128"
  shows "(res AND (32 OR 64) = 32) = (unat res mod 128 - unat res mod 32 = 32)"
    and "(res AND (32 OR 64) = 64) = (unat res mod 128 - unat res mod 32 = 64)"
    and "(res AND (32 OR 64) = 96) = (unat res mod 128 - unat res mod 32 = 96)"
  using and_96[OF assms] by (simp_all only: word_unat_eq_iff) simp_all


lemma raw7_spec:
  assumes "unat (res::64 word) < 128"
  shows "bindE (if res AND (32 OR 64) = 32 then
                    bindE (ReadInt 2 r3) (\<lambda>(x, r4). Inr ((res AND NOT 96) OR push_bit 5 x, r4))
                  else if res AND (32 OR 64) = 64 then
                    bindE (ReadInt 4 r3) (\<lambda>(x, r4). Inr ((res AND NOT 96) OR push_bit 5 x, r4))
                  else if res AND (32 OR 64) = 96 then
                    bindE (ReadInt 7 r3) (\<lambda>(x, r4). Inr ((res AND NOT 96) OR push_bit 5 x, r4))
                  else Inr (res, r3)) (\<lambda>(y, r'). Inr (unat y, r'))
       = (let pattern = unat res mod 128 - unat res mod 32 in
           if pattern = 32 then
             bindE (read_uint 2 r3) (\<lambda>(ext, r4). Inr (replace_bits_5_6 (unat res) ext, r4))
           else if pattern = 64 then
             bindE (read_uint 4 r3) (\<lambda>(ext, r4). Inr (replace_bits_5_6 (unat res) ext, r4))
           else if pattern = 96 then
             bindE (read_uint 7 r3) (\<lambda>(ext, r4). Inr (replace_bits_5_6 (unat res) ext, r4))
           else Inr (unat res, r3))"
  unfolding Let_def pattern_iff[OF assms]
  using ext_step[OF assms, of 2 r3] ext_step[OF assms, of 4 r3] ext_step[OF assms, of 7 r3]
  by (simp add: bindE_def)

lemma raw7_bound:
  assumes "unat (res::64 word) < 128"
   and "(if res AND (32 OR 64) = 32 then
                    bindE (ReadInt 2 r3) (\<lambda>(x, r4). Inr ((res AND NOT 96) OR push_bit 5 x, r4))
                  else if res AND (32 OR 64) = 64 then
                    bindE (ReadInt 4 r3) (\<lambda>(x, r4). Inr ((res AND NOT 96) OR push_bit 5 x, r4))
                  else if res AND (32 OR 64) = 96 then
                    bindE (ReadInt 7 r3) (\<lambda>(x, r4). Inr ((res AND NOT 96) OR push_bit 5 x, r4))
                  else Inr (res, r3)) = Inr (y, r')"
  shows "unat y \<le> 4095 \<and> length r' \<le> length r3"
  using assms(2) ext_bound[OF assms(1), of 2 r3 y r'] ext_bound[OF assms(1), of 4 r3 y r']
     ext_bound[OF assms(1), of 7 r3 y r'] assms(1)
  by (auto split: if_splits)


lemma offset_spec:
  "bindE (if b then ReadInt 3 r2
              else
                bindE (ReadInt 7 r2) (\<lambda>(res, r3).
                  if res AND (32 OR 64) = 32 then
                    bindE (ReadInt 2 r3) (\<lambda>(x, r4). Inr ((res AND NOT 96) OR push_bit 5 x, r4))
                  else if res AND (32 OR 64) = 64 then
                    bindE (ReadInt 4 r3) (\<lambda>(x, r4). Inr ((res AND NOT 96) OR push_bit 5 x, r4))
                  else if res AND (32 OR 64) = 96 then
                    bindE (ReadInt 7 r3) (\<lambda>(x, r4). Inr ((res AND NOT 96) OR push_bit 5 x, r4))
                  else Inr (res, r3))) (\<lambda>(y, r'). Inr (unat y, r'))
   = (if b then read_uint 3 r2
       else
         bindE (read_uint 7 r2) (\<lambda>(res, r3).
           let pattern = res mod 128 - res mod 32 in
           if pattern = 32 then
             bindE (read_uint 2 r3) (\<lambda>(ext, r4). Inr (replace_bits_5_6 res ext, r4))
           else if pattern = 64 then
             bindE (read_uint 4 r3) (\<lambda>(ext, r4). Inr (replace_bits_5_6 res ext, r4))
           else if pattern = 96 then
             bindE (read_uint 7 r3) (\<lambda>(ext, r4). Inr (replace_bits_5_6 res ext, r4))
           else Inr (res, r3)))"
proof (cases b)
  case True
  then show ?thesis by (simp add: read_uint_def)
next
  case False
  show ?thesis
  proof (cases "ReadInt 7 r2")
    case (Inl e)
    then show ?thesis using False by (simp add: bindE_def read_uint_def)
  next
    case (Inr p)
    obtain res r3 where p: "p = (res, r3)" by (cases p)
    have small: "unat res < 128" using ReadInt_unat[of 7 r2 res r3] Inr p by simp
    have ru: "read_uint 7 r2 = Inr (unat res, r3)" using Inr p by (simp add: read_uint_def bindE_def)
    show ?thesis using False raw7_spec[OF small, of r3]
      by (simp add: Inr p ru) (simp add: bindE_def)
  qed
qed

lemma offset_bound:
  assumes "(if b then ReadInt 3 r2
              else
                bindE (ReadInt 7 r2) (\<lambda>(res, r3).
                  if res AND (32 OR 64) = 32 then
                    bindE (ReadInt 2 r3) (\<lambda>(x, r4). Inr ((res AND NOT 96) OR push_bit 5 x, r4))
                  else if res AND (32 OR 64) = 64 then
                    bindE (ReadInt 4 r3) (\<lambda>(x, r4). Inr ((res AND NOT 96) OR push_bit 5 x, r4))
                  else if res AND (32 OR 64) = 96 then
                    bindE (ReadInt 7 r3) (\<lambda>(x, r4). Inr ((res AND NOT 96) OR push_bit 5 x, r4))
                  else Inr (res, r3))) = Inr (y, r')"
  shows "unat y \<le> 4095 \<and> length r' < length r2"
proof (cases b)
  case True
  then have rd: "ReadInt 3 r2 = Inr (y, r')" using assms by simp
  have "unat y < 2 ^ 3 \<and> r' = drop 3 r2 \<and> 3 \<le> length r2" using ReadInt_unat[OF rd] by simp
  then show ?thesis by auto
next
  case False
  then obtain res r3 where rd: "ReadInt 7 r2 = Inr (res, r3)"
    using assms by (auto simp: bindE_def split: sum.splits)
  have small: "unat res < 2 ^ 7 \<and> r3 = drop 7 r2 \<and> 7 \<le> length r2" using ReadInt_unat[OF rd] by simp
  then have s: "unat res < 128" by simp
  have "unat y \<le> 4095 \<and> length r' \<le> length r3"
    using raw7_bound[OF s, of r3 y r'] assms False rd by (simp add: bindE_def)
  then show ?thesis using small by auto
qed

lemma final_step:
  assumes "\<And>y r'. T = Inr (y, r') \<Longrightarrow> unat (y::64 word) \<le> 4095"
  shows "bindE T (\<lambda>(res, r5).
                if res = 0xfff then Inr (- 1, r5)
                else Inr (int_add (int_add l 1) (int_of_uint res), r5))
       = bindE (bindE T (\<lambda>(y, r'). Inr (unat y, r')))
           (\<lambda>(res, r'). if res = 4095 then Inr (- 1, r') else Inr (wrap64 (l + 1 + int res), r'))"
proof (cases T)
  case (Inl e)
  then show ?thesis by (simp add: bindE_def)
next
  case (Inr p)
  obtain y r' where p: "p = (y, r')" by (cases p)
  have b: "unat y \<le> 4095" using assms Inr p by simp
  show ?thesis using Inr p word_eq_numeral_iff[OF b] int_of_uint_small[OF b]
    by (simp add: bindE_def int_add_add)
qed


lemma readFieldIndex_refines:
  "readFieldIndex reader lastIndex newWay = spec_field_index reader lastIndex newWay"
proof -
  define T where "T b r2 = (if b then ReadInt 3 r2
              else
                bindE (ReadInt 7 r2) (\<lambda>(res, r3).
                  if res AND (32 OR 64) = 32 then
                    bindE (ReadInt 2 r3) (\<lambda>(x, r4). Inr ((res AND NOT 96) OR push_bit 5 x, r4))
                  else if res AND (32 OR 64) = 64 then
                    bindE (ReadInt 4 r3) (\<lambda>(x, r4). Inr ((res AND NOT 96) OR push_bit 5 x, r4))
                  else if res AND (32 OR 64) = 96 then
                    bindE (ReadInt 7 r3) (\<lambda>(x, r4). Inr ((res AND NOT 96) OR push_bit 5 x, r4))
                  else Inr (res, r3)))" for b r2
  define K where "K = (\<lambda>(res :: 64 word, r5 :: BitReader).
                if res = 0xfff then Inr (- 1, r5) :: error + (int \<times> BitReader)
                else Inr (int_add (int_add lastIndex 1) (int_of_uint res), r5))"
  define K' where "K' = (\<lambda>(res :: nat, r' :: BitReader).
     if res = 4095 then Inr (- 1, r') :: error + (int \<times> BitReader)
     else Inr (wrap64 (lastIndex + 1 + int res), r'))"
  have bound: "unat y \<le> 4095" if "T b r2 = Inr (y, r')" for b r2 y r'
    using offset_bound[of b r2 y r'] that unfolding T_def by blast
  have inner: "bindE (T b r2) K = bindE (spec_raw_offset newWay' r1) K'"
    if "(if newWay' then read_bit r1 else Inr (False, r1)) = Inr (b, r2)" for b r2 newWay' r1
  proof -
    have "bindE (T b r2) K = bindE (bindE (T b r2) (\<lambda>(y, r'). Inr (unat y, r'))) K'"
      unfolding K_def K'_def by (rule final_step) (rule bound)
    also have "bindE (T b r2) (\<lambda>(y, r'). Inr (unat y, r')) = spec_raw_offset newWay' r1"
      unfolding T_def offset_spec spec_raw_offset_def using that by (simp add: bindE_def)
    finally show ?thesis .
  qed
  have lhs: "readFieldIndex reader lastIndex newWay =
     bindE (if newWay then ReadBit reader else Inr (False, reader)) (\<lambda>(a, r1).
       if a then Inr (int_add lastIndex 1, r1)
       else bindE (if newWay then ReadBit r1 else Inr (False, r1)) (\<lambda>(b, r2). bindE (T b r2) K))"
    unfolding readFieldIndex_def T_def K_def ..
  have rhs: "spec_field_index reader lastIndex newWay =
     bindE (if newWay then read_bit reader else Inr (False, reader)) (\<lambda>(a, r1).
       if a then Inr (wrap64 (lastIndex + 1), r1)
       else bindE (spec_raw_offset newWay r1) K')"
    unfolding spec_field_index_def K'_def ..
  have mid: "bindE (if newWay then ReadBit r1 else Inr (False, r1)) (\<lambda>(b, r2). bindE (T b r2) K)
     = bindE (spec_raw_offset newWay r1) K'" for r1
  proof (cases "if newWay then read_bit r1 else Inr (False, r1)")
    case (Inl e)
    then show ?thesis
      by (auto simp: bindE_def spec_raw_offset_def read_bit_def split: if_splits)
  next
    case (Inr p)
    obtain b r2 where p: "p = (b, r2)" by (cases p)
    show ?thesis using inner[of newWay r1 b r2] Inr p
      by (auto simp: bindE_def read_bit_def split: if_splits)
  qed
  show ?thesis unfolding lhs rhs mid by (simp add: read_bit_def int_add_def cong: if_cong)
qed


text \<open>
  Claim C1. For every bitstream, every previous index and either value of the flag,
  readFieldIndex is the algorithm of section 4.1 of the specification: the same
  result (the index, the sentinel -1, or the panic at the end of the stream) and the
  same remaining stream. Additions are those of \<^verbatim>\<open>int\<close>.
\<close>

theorem readFieldIndex_follows_spec:
  "readFieldIndex reader lastIndex newWay = spec_field_index reader lastIndex newWay"
  by (rule readFieldIndex_refines)


subsection \<open>FindProperty\<close>

lemma FindProperty_loop_Some:
  "FindProperty_loop ps nm i (Some k) =
     (if filter (\<lambda>p. name (entry p) = nm) ps = [] then Inr (Some k)
      else Inl (DuplicateProperty nm))"
  by (induction ps arbitrary: i) auto

lemma FindProperty_loop_None:
  "FindProperty_loop ps nm i None =
     (case filter (\<lambda>p. name (entry p) = nm) ps of
        [] \<Rightarrow> Inr None
      | [p] \<Rightarrow> Inr (Some (i + length (takeWhile (\<lambda>p. name (entry p) \<noteq> nm) ps)))
      | p # q # qs \<Rightarrow> Inl (DuplicateProperty nm))"
proof (induction ps arbitrary: i)
  case Nil
  then show ?case by simp
next
  case (Cons a ps)
  show ?case
  proof (cases "name (entry a) = nm")
    case True
    then show ?thesis
      by (simp add: FindProperty_loop_Some split: list.splits)
  next
    case False
    then show ?thesis using Cons.IH[of "Suc i"]
      by (simp split: list.splits)
  qed
qed

lemma takeWhile_index:
  assumes "filter P ps = [p]"
  shows "length (takeWhile (\<lambda>x. \<not> P x) ps) < length ps \<and> P (ps ! length (takeWhile (\<lambda>x. \<not> P x) ps))
     \<and> (\<forall>j < length ps. P (ps ! j) \<longrightarrow> j = length (takeWhile (\<lambda>x. \<not> P x) ps))"
  using assms
proof (induction ps)
  case Nil
  then show ?case by simp
next
  case (Cons a ps)
  show ?case
  proof (cases "P a")
    case True
    then have "filter P ps = []" using Cons.prems by simp
    then have "\<forall>x \<in> set ps. \<not> P x" by (simp add: filter_empty_conv)
    then show ?thesis using True by (auto simp: nth_Cons split: nat.splits)
  next
    case False
    then have "filter P ps = [p]" using Cons.prems by simp
    from Cons.IH[OF this] show ?thesis using False
      by (auto simp: nth_Cons split: nat.splits)
  qed
qed

text \<open>The three outcomes of FindProperty, by the number of properties of that name.\<close>

lemma FindProperty_one:
  assumes "length (filter (\<lambda>p. name (entry p) = nm) (props e)) = 1"
  shows "\<exists>i. FindProperty e nm = Inr (Some i) \<and> i < length (props e)
           \<and> name (entry (props e ! i)) = nm
           \<and> (\<forall>j < length (props e). name (entry (props e ! j)) = nm \<longrightarrow> j = i)"
proof -
  from assms obtain p where f: "filter (\<lambda>p. name (entry p) = nm) (props e) = [p]"
    by (cases "filter (\<lambda>p. name (entry p) = nm) (props e)") auto
  let ?i = "length (takeWhile (\<lambda>p. name (entry p) \<noteq> nm) (props e))"
  have "FindProperty e nm = Inr (Some ?i)"
    by (simp add: FindProperty_def FindProperty_loop_None f)
  then show ?thesis using takeWhile_index[OF f] by blast
qed

lemma FindProperty_none:
  assumes "length (filter (\<lambda>p. name (entry p) = nm) (props e)) = 0"
  shows "FindProperty e nm = Inr None"
  using assms by (simp add: FindProperty_def FindProperty_loop_None)

lemma FindProperty_many:
  assumes "2 \<le> length (filter (\<lambda>p. name (entry p) = nm) (props e))"
  shows "FindProperty e nm = Inl (DuplicateProperty nm)"
proof -
  from assms obtain p q qs where "filter (\<lambda>p. name (entry p) = nm) (props e) = p # q # qs"
    by (cases "filter (\<lambda>p. name (entry p) = nm) (props e)";
        cases "tl (filter (\<lambda>p. name (entry p) = nm) (props e))") auto
  then show ?thesis by (simp add: FindProperty_def FindProperty_loop_None)
qed

text \<open>
  Claim C5. FindProperty returns the property of the given name when exactly one
  property has it (the position of that property, the only one of that name), returns
  nil when none has it, and panics when two or more have it, wherever they are in the
  list.
\<close>

theorem FindProperty_unique_absent_duplicate:
  "(length (filter (\<lambda>p. name (entry p) = nm) (props e)) = 1 \<longrightarrow>
      (\<exists>i. FindProperty e nm = Inr (Some i) \<and> i < length (props e)
           \<and> name (entry (props e ! i)) = nm
           \<and> (\<forall>j < length (props e). name (entry (props e ! j)) = nm \<longrightarrow> j = i)))
   \<and> (length (filter (\<lambda>p. name (entry p) = nm) (props e)) = 0 \<longrightarrow>
      FindProperty e nm = Inr None)
   \<and> (2 \<le> length (filter (\<lambda>p. name (entry p) = nm) (props e)) \<longrightarrow>
      FindProperty e nm = Inl (DuplicateProperty nm))"
  using FindProperty_one[of nm e] FindProperty_none[of nm e] FindProperty_many[of nm e]
  by blast

lemma abc_props:
  "props (abc_entity :: (real, real, unit, 'w) Entity) =
     [example_prop ''a'' (example_value 1 (Vector 0 0 0)),
      example_prop ''b'' (example_value 2 (Vector 0 0 0)),
      example_prop ''c'' (example_value 3 (Vector 0 0 0)),
      example_prop ''b'' (example_value 4 (Vector 0 0 0))]"
  by (simp add: abc_entity_def example_entity_def)

lemma example_prop_name: "name (entry (example_prop nm v)) = nm"
  by (simp add: example_prop_def)

text \<open>On the entity with the names a, b, c, b: the three cases.\<close>

theorem FindProperty_unique_absent_duplicate_witness:
  "length (filter (\<lambda>p. name (entry p) = ''c'') (props (abc_entity :: (real, real, unit, unit) Entity))) = 1
   \<and> FindProperty (abc_entity :: (real, real, unit, unit) Entity) ''c'' = Inr (Some 2)
   \<and> length (filter (\<lambda>p. name (entry p) = ''z'') (props (abc_entity :: (real, real, unit, unit) Entity))) = 0
   \<and> FindProperty (abc_entity :: (real, real, unit, unit) Entity) ''z'' = Inr None
   \<and> 2 \<le> length (filter (\<lambda>p. name (entry p) = ''b'') (props (abc_entity :: (real, real, unit, unit) Entity)))
   \<and> FindProperty (abc_entity :: (real, real, unit, unit) Entity) ''b'' = Inl (DuplicateProperty ''b'')"
proof -
  let ?e = "abc_entity :: (real, real, unit, unit) Entity"
  have c: "length (filter (\<lambda>p. name (entry p) = ''c'') (props ?e)) = 1"
    by (simp add: abc_props example_prop_name)
  have z: "length (filter (\<lambda>p. name (entry p) = ''z'') (props ?e)) = 0"
    by (simp add: abc_props example_prop_name)
  have b: "2 \<le> length (filter (\<lambda>p. name (entry p) = ''b'') (props ?e))"
    by (simp add: abc_props example_prop_name)
  from FindProperty_unique_absent_duplicate[of "''c''" ?e] c
  obtain i where i: "FindProperty ?e ''c'' = Inr (Some i)"
    and u: "\<forall>j < length (props ?e). name (entry (props ?e ! j)) = ''c'' \<longrightarrow> j = i"
    by blast
  have "2 < length (props ?e) \<and> name (entry (props ?e ! 2)) = ''c''"
    by (simp add: abc_props example_prop_name)
  then have "i = 2" using u by blast
  then have c': "FindProperty ?e ''c'' = Inr (Some 2)" using i by simp
  have z': "FindProperty ?e ''z'' = Inr None"
    using FindProperty_unique_absent_duplicate[of "''z''" ?e] z by blast
  have b': "FindProperty ?e ''b'' = Inl (DuplicateProperty ''b'')"
    using FindProperty_unique_absent_duplicate[of "''b''" ?e] b by blast
  show ?thesis using c c' z z' b b' by blast
qed


subsection \<open>BindProperty\<close>

text \<open>
  Claim C10. BindProperty has no result through which it could report absence. When
  no property has the name, FindProperty returns nil and BindProperty panics with a nil
  dereference; when several have it, the panic of FindProperty goes through. It
  returns, with the binder installed on the property of that name, exactly when one
  property has the name.
\<close>

theorem BindProperty_defined_iff_unique:
  "(length (filter (\<lambda>p. name (entry p) = nm) (props e)) = 0 \<longrightarrow>
      BindProperty float64 e nm var valueType = Inl NilDereference)
   \<and> (2 \<le> length (filter (\<lambda>p. name (entry p) = nm) (props e)) \<longrightarrow>
      BindProperty float64 e nm var valueType = Inl (DuplicateProperty nm))
   \<and> (length (filter (\<lambda>p. name (entry p) = nm) (props e)) = 1 \<longrightarrow>
      (\<exists>i. i < length (props e) \<and> name (entry (props e ! i)) = nm
         \<and> BindProperty float64 e nm var valueType =
             Inr (e\<lparr>props := (props e)[i := Bind float64 (props e ! i) var valueType]\<rparr>)))"
proof (intro conjI impI)
  assume "length (filter (\<lambda>p. name (entry p) = nm) (props e)) = 0"
  then show "BindProperty float64 e nm var valueType = Inl NilDereference"
    using FindProperty_none[of nm e] by (simp add: BindProperty_def bindE_def)
next
  assume "2 \<le> length (filter (\<lambda>p. name (entry p) = nm) (props e))"
  then show "BindProperty float64 e nm var valueType = Inl (DuplicateProperty nm)"
    using FindProperty_many[of nm e] by (simp add: BindProperty_def bindE_def)
next
  assume "length (filter (\<lambda>p. name (entry p) = nm) (props e)) = 1"
  from FindProperty_one[OF this] obtain i where
    "FindProperty e nm = Inr (Some i)" "i < length (props e)" "name (entry (props e ! i)) = nm"
    by blast
  then show "\<exists>i. i < length (props e) \<and> name (entry (props e ! i)) = nm
         \<and> BindProperty float64 e nm var valueType =
             Inr (e\<lparr>props := (props e)[i := Bind float64 (props e ! i) var valueType]\<rparr>)"
    by (auto simp: BindProperty_def bindE_def)
qed

text \<open>On the entity with the names a, b, c, b: the names z, b and c.\<close>

theorem BindProperty_defined_iff_unique_witness:
  "length (filter (\<lambda>p. name (entry p) = ''z'') (props (abc_entity :: (real, real, unit, (real, real) store) Entity))) = 0
   \<and> BindProperty (\<lambda>x. x) (abc_entity :: (real, real, unit, (real, real) store) Entity) ''z'' (PtrInt 0) ValTypeInt
       = Inl NilDereference
   \<and> 2 \<le> length (filter (\<lambda>p. name (entry p) = ''b'') (props (abc_entity :: (real, real, unit, (real, real) store) Entity)))
   \<and> BindProperty (\<lambda>x. x) (abc_entity :: (real, real, unit, (real, real) store) Entity) ''b'' (PtrInt 0) ValTypeInt
       = Inl (DuplicateProperty ''b'')
   \<and> length (filter (\<lambda>p. name (entry p) = ''c'') (props (abc_entity :: (real, real, unit, (real, real) store) Entity))) = 1
   \<and> BindProperty (\<lambda>x. x) (abc_entity :: (real, real, unit, (real, real) store) Entity) ''c'' (PtrInt 0) ValTypeInt
       = Inr (abc_entity\<lparr>props := (props abc_entity)
                [2 := Bind (\<lambda>x. x) (props abc_entity ! 2) (PtrInt 0) ValTypeInt]\<rparr>)"
proof -
  let ?e = "abc_entity :: (real, real, unit, (real, real) store) Entity"
  note th = BindProperty_defined_iff_unique[of _ ?e "\<lambda>x. x" "PtrInt 0" ValTypeInt]
  have z: "length (filter (\<lambda>p. name (entry p) = ''z'') (props ?e)) = 0"
    by (simp add: abc_props example_prop_name)
  have b: "2 \<le> length (filter (\<lambda>p. name (entry p) = ''b'') (props ?e))"
    by (simp add: abc_props example_prop_name)
  have c: "length (filter (\<lambda>p. name (entry p) = ''c'') (props ?e)) = 1"
    by (simp add: abc_props example_prop_name)
  have z': "BindProperty (\<lambda>x. x) ?e ''z'' (PtrInt 0) ValTypeInt = Inl NilDereference"
    using th[of "''z''"] z by blast
  have b': "BindProperty (\<lambda>x. x) ?e ''b'' (PtrInt 0) ValTypeInt = Inl (DuplicateProperty ''b'')"
    using th[of "''b''"] b by blast
  from th[of "''c''"] c obtain i where i: "i < length (props ?e)" "name (entry (props ?e ! i)) = ''c''"
    and r: "BindProperty (\<lambda>x. x) ?e ''c'' (PtrInt 0) ValTypeInt =
             Inr (?e\<lparr>props := (props ?e)[i := Bind (\<lambda>x. x) (props ?e ! i) (PtrInt 0) ValTypeInt]\<rparr>)"
    by blast
  have "i < 4" using i(1) by (simp add: abc_props)
  then have "i = 0 \<or> i = 1 \<or> i = 2 \<or> i = 3" by arith
  then have "i = 2" using i(2) by (auto simp: abc_props example_prop_name)
  then show ?thesis using z z' b b' c r by simp
qed

subsection \<open>Destroy\<close>

lemma onDestroy_foldl: "onDestroy (foldl OnDestroy e cs) = onDestroy e @ cs"
  by (induction cs arbitrary: e) (auto simp: OnDestroy_def)

lemma Destroy_loop_log: "Destroy_loop (map log_callback ks) w = Inr (w @ ks)"
  by (induction ks arbitrary: w) (auto simp: log_callback_def bindE_def)

text \<open>
  Claim C7, as amended. Every call of Destroy invokes each callback registered with
  OnDestroy once, in the order of registration: with callbacks that append their
  number to a log, one call appends the numbers \<open>ks\<close> and two calls append them twice.
  The source keeps no mark of a destroyed entity and does not empty the list.
\<close>

theorem Destroy_fires_all_on_every_call:
  "Destroy (foldl OnDestroy (e\<lparr>onDestroy := []\<rparr>) (map log_callback ks)) w = Inr (w @ ks)
   \<and> bindE (Destroy (foldl OnDestroy (e\<lparr>onDestroy := []\<rparr>) (map log_callback ks)) w)
        (Destroy (foldl OnDestroy (e\<lparr>onDestroy := []\<rparr>) (map log_callback ks)))
      = Inr (w @ ks @ ks)"
  by (simp add: Destroy_def onDestroy_foldl Destroy_loop_log bindE_def)

text \<open>
  Claim C7 as stated fails: after a first Destroy has invoked callback 7, a second
  Destroy invokes it again.
\<close>

theorem Destroy_twice_counterexample:
  "Destroy (OnDestroy (example_entity []) (log_callback 7)) [] = Inr [7]
   \<and> Destroy (OnDestroy (example_entity []) (log_callback 7)) [7] = Inr [7, 7]"
  by (simp add: Destroy_def OnDestroy_def example_entity_def log_callback_def bindE_def)


subsection \<open>The second loop of ApplyUpdate\<close>

lemma decodeProp_Inr:
  assumes "decodeProp dec pe r = Inr (pe', r')"
  shows "\<exists>v. dec (entry pe) r = Inr (v, r') \<and> pe' = pe\<lparr>val := v\<rparr>"
  using assms by (auto simp: decodeProp_def bindE_def split: sum.splits)

lemma update_same_field:
  assumes "i < length ps" "f pe = f (ps ! i)"
  shows "map f (ps[i := pe]) = map f ps"
  using assms by (simp add: map_update list_update_same_conv)

lemma ApplyUpdate_props_shape:
  assumes "ApplyUpdate_props dec ps idxs r w = Inr (ps', r', w')"
  shows "length ps' = length ps \<and> map entry ps' = map entry ps
         \<and> map updateHandlers ps' = map updateHandlers ps
         \<and> (\<forall>idx \<in> set idxs. 0 \<le> idx \<and> idx < int (length ps))"
  using assms
proof (induction idxs arbitrary: ps r w)
  case Nil
  then show ?case by simp
next
  case (Cons idx idxs)
  from Cons.prems have rng: "0 \<le> idx" "idx < int (length ps)"
    by (auto split: if_splits)
  then have i: "nat idx < length ps" by linarith
  from Cons.prems rng obtain pe r1 w1 where
    d: "decodeProp dec (ps ! nat idx) r = Inr (pe, r1)"
    and f: "firePropertyUpdate pe w = Inr w1"
    and rest: "ApplyUpdate_props dec (ps[nat idx := pe]) idxs r1 w1 = Inr (ps', r', w')"
    by (auto simp: bindE_def split: sum.splits)
  from decodeProp_Inr[OF d] obtain v where pe: "pe = (ps ! nat idx)\<lparr>val := v\<rparr>" by blast
  have e: "map entry (ps[nat idx := pe]) = map entry ps"
    by (rule update_same_field[OF i]) (simp add: pe)
  have h: "map updateHandlers (ps[nat idx := pe]) = map updateHandlers ps"
    by (rule update_same_field[OF i]) (simp add: pe)
  from Cons.IH[OF rest] show ?case using e h rng by simp
qed

subsection \<open>initializeBaseline\<close>

lemma initializeBaseline_attach_length: "length (initializeBaseline_attach i ps) = length ps"
  by (induction ps arbitrary: i) auto

text \<open>
  Claim C8. When initializeBaseline returns, the entity has the properties it had
  (as many, with the same entries) and the handler list of every one of them is empty:
  no adder is left, and no other handler.
\<close>

theorem initializeBaseline_leaves_no_handler:
  assumes "initializeBaseline dec e r w = Inr (baseline, e', r', w')"
  shows "length (props e') = length (props e) \<and> (\<forall>pe \<in> set (props e'). updateHandlers pe = [])"
proof -
  from assms obtain e2 where
    a: "ApplyUpdate dec ((lift_entity e)\<lparr>props := initializeBaseline_attach 0 (props (lift_entity e))\<rparr>) r ([], w)
          = Inr (e2, r', (baseline, w'))"
    and e': "e' = e\<lparr>props := map clear_handlers (props e2)\<rparr>"
    by (auto simp: initializeBaseline_def Let_def bindE_def split: sum.splits)
  from a obtain nw r1 idxs r2 where
    "ApplyUpdate_props dec (initializeBaseline_attach 0 (props (lift_entity e))) idxs r2 ([], w)
       = Inr (props e2, r', (baseline, w'))"
    by (auto simp: ApplyUpdate_def bindE_def split: sum.splits)
  from ApplyUpdate_props_shape[OF this]
  have "length (props e2) = length (props e)"
    by (simp add: initializeBaseline_attach_length lift_entity_def)
  then show ?thesis using e' by (simp add: clear_handlers_def)
qed

text \<open>On the entity a, b, c, b and the example record.\<close>

theorem initializeBaseline_leaves_no_handler_witness:
  "\<not> isl (initializeBaseline example_decoder (abc_entity :: (real, real, unit, unit) Entity) example_stream ())
   \<and> map updateHandlers
        (props (fst (snd (projr (initializeBaseline example_decoder
           (abc_entity :: (real, real, unit, unit) Entity) example_stream ())))))
      = [[], [], [], []]"
proof -
  let ?R = "initializeBaseline example_decoder (abc_entity :: (real, real, unit, unit) Entity) example_stream ()"
  have ok: "\<not> isl ?R" by code_simp
  then obtain y where "?R = Inr y" by (cases ?R) auto
  then obtain b e' r' w' where R: "?R = Inr (b, e', r', w')" by (cases y) auto
  from initializeBaseline_leaves_no_handler[OF R]
  have len: "length (props e') = 4" and emp: "\<forall>pe \<in> set (props e'). updateHandlers pe = []"
    by (simp_all add: abc_props)
  have "map updateHandlers (props e') = replicate (length (props e')) []"
    using emp by (simp add: map_replicate_const[symmetric] cong: map_cong)
  then have "map updateHandlers (props e') = [[], [], [], []]"
    unfolding len by (simp add: numeral_eq_Suc)
  then show ?thesis using ok R by simp
qed


subsection \<open>Bind\<close>

lemma firePropertyUpdate_loop_append:
  "firePropertyUpdate_loop (hs @ [h]) v w =
     bindE (firePropertyUpdate_loop hs v w) (firePropertyUpdate_loop [h] v)"
proof (induction hs arbitrary: w)
  case Nil
  then show ?case by (simp add: bindE_def)
next
  case (Cons a hs)
  show ?case
  proof (cases a)
    case None
    then show ?thesis using Cons.IH by simp
  next
    case (Some f)
    then show ?thesis using Cons.IH by (cases "f v w") (simp_all add: bindE_def)
  qed
qed

lemma fire_after_OnUpdate:
  "firePropertyUpdate ((OnUpdate pe (Some h))\<lparr>val := v\<rparr>) w =
     bindE (firePropertyUpdate (pe\<lparr>val := v\<rparr>) w) (h v)"
proof -
  have "firePropertyUpdate_loop [Some h] v = h v"
    by (rule ext) (simp add: bindE_def split: sum.splits)
  then show ?thesis
    by (simp add: firePropertyUpdate_def OnUpdate_def firePropertyUpdate_loop_append)
qed

lemma ValType_distinct:
  "ValTypeInt \<noteq> ValTypeBoolInt" "ValTypeInt \<noteq> ValTypeFloat32" "ValTypeInt \<noteq> ValTypeFloat64"
  "ValTypeInt \<noteq> ValTypeString" "ValTypeInt \<noteq> ValTypeVector" "ValTypeInt \<noteq> ValTypeArray"
  "ValTypeBoolInt \<noteq> ValTypeFloat32" "ValTypeBoolInt \<noteq> ValTypeFloat64" "ValTypeBoolInt \<noteq> ValTypeString"
  "ValTypeBoolInt \<noteq> ValTypeVector" "ValTypeBoolInt \<noteq> ValTypeArray"
  "ValTypeFloat32 \<noteq> ValTypeFloat64" "ValTypeFloat32 \<noteq> ValTypeString" "ValTypeFloat32 \<noteq> ValTypeVector"
  "ValTypeFloat32 \<noteq> ValTypeArray"
  "ValTypeFloat64 \<noteq> ValTypeString" "ValTypeFloat64 \<noteq> ValTypeVector" "ValTypeFloat64 \<noteq> ValTypeArray"
  "ValTypeString \<noteq> ValTypeVector" "ValTypeString \<noteq> ValTypeArray"
  "ValTypeVector \<noteq> ValTypeArray"
  by (simp_all add: ValTypeInt_def ValTypeBoolInt_def ValTypeFloat32_def ValTypeFloat64_def
        ValTypeString_def ValTypeVector_def ValTypeArray_def)

lemma Bind_unchanged:
  "val (Bind float64 pe var valueType) = val pe
   \<and> entry (Bind float64 pe var valueType) = entry pe
   \<and> butlast (updateHandlers (Bind float64 pe var valueType)) = updateHandlers pe"
  by (simp add: Bind_def OnUpdate_def Let_def)

lemma Bind_Int:
  "firePropertyUpdate ((Bind float64 pe (PtrInt a) ValTypeInt)\<lparr>val := v\<rparr>) w =
     bindE (firePropertyUpdate (pe\<lparr>val := v\<rparr>) w)
       (\<lambda>w1. Inr (w1\<lparr>intVars := (intVars w1)(a := IntVal v)\<rparr>))"
  by (simp add: Bind_def Let_def fire_after_OnUpdate)

lemma Bind_BoolInt:
  "firePropertyUpdate ((Bind float64 pe (PtrBool a) ValTypeBoolInt)\<lparr>val := v\<rparr>) w =
     bindE (firePropertyUpdate (pe\<lparr>val := v\<rparr>) w)
       (\<lambda>w1. Inr (w1\<lparr>boolVars := (boolVars w1)(a := (IntVal v = 1))\<rparr>))"
  using ValType_distinct by (simp add: Bind_def Let_def fire_after_OnUpdate)

lemma Bind_Float32:
  "firePropertyUpdate ((Bind float64 pe (PtrFloat32 a) ValTypeFloat32)\<lparr>val := v\<rparr>) w =
     bindE (firePropertyUpdate (pe\<lparr>val := v\<rparr>) w)
       (\<lambda>w1. Inr (w1\<lparr>float32Vars := (float32Vars w1)(a := FloatVal v)\<rparr>))"
  using ValType_distinct by (simp add: Bind_def Let_def fire_after_OnUpdate)

lemma Bind_Float64:
  "firePropertyUpdate ((Bind float64 pe (PtrFloat64 a) ValTypeFloat64)\<lparr>val := v\<rparr>) w =
     bindE (firePropertyUpdate (pe\<lparr>val := v\<rparr>) w)
       (\<lambda>w1. Inr (w1\<lparr>float64Vars := (float64Vars w1)(a := float64 (FloatVal v))\<rparr>))"
  using ValType_distinct by (simp add: Bind_def Let_def fire_after_OnUpdate)

lemma Bind_String:
  "firePropertyUpdate ((Bind float64 pe (PtrString a) ValTypeString)\<lparr>val := v\<rparr>) w =
     bindE (firePropertyUpdate (pe\<lparr>val := v\<rparr>) w)
       (\<lambda>w1. Inr (w1\<lparr>stringVars := (stringVars w1)(a := StringVal v)\<rparr>))"
  using ValType_distinct by (simp add: Bind_def Let_def fire_after_OnUpdate)

lemma Bind_Vector:
  "firePropertyUpdate ((Bind float64 pe (PtrVector a) ValTypeVector)\<lparr>val := v\<rparr>) w =
     bindE (firePropertyUpdate (pe\<lparr>val := v\<rparr>) w)
       (\<lambda>w1. Inr (w1\<lparr>vectorVars := (vectorVars w1)(a := VectorVal v)\<rparr>))"
  using ValType_distinct by (simp add: Bind_def Let_def fire_after_OnUpdate)

lemma Bind_Array:
  "firePropertyUpdate ((Bind float64 pe (PtrArray a) ValTypeArray)\<lparr>val := v\<rparr>) w =
     bindE (firePropertyUpdate (pe\<lparr>val := v\<rparr>) w)
       (\<lambda>w1. Inr (w1\<lparr>arrayVars := (arrayVars w1)(a := ArrayVal v)\<rparr>))"
  using ValType_distinct by (simp add: Bind_def Let_def fire_after_OnUpdate)

text \<open>
  Claim C6. Bind leaves the property's value and entry as they are and adds one
  handler after those already registered; it takes no store and returns none, so the
  target keeps the value its caller gave it. When the property then fires with the
  new value \<open>v\<close>, the handlers registered before run first and the binder then stores
  into the target: \<open>IntVal v\<close> for Int, the truth value of \<open>IntVal v = 1\<close> for BoolInt,
  \<open>FloatVal v\<close> for Float32, its conversion to \<^verbatim>\<open>float64\<close> for Float64, \<open>StringVal v\<close>
  for String, \<open>VectorVal v\<close> for Vector and \<open>ArrayVal v\<close> for Array.
\<close>

theorem Bind_writes_converted_value:
  "val (Bind float64 pe var valueType) = val pe
   \<and> entry (Bind float64 pe var valueType) = entry pe
   \<and> butlast (updateHandlers (Bind float64 pe var valueType)) = updateHandlers pe
   \<and> firePropertyUpdate ((Bind float64 pe (PtrInt a) ValTypeInt)\<lparr>val := v\<rparr>) w =
       bindE (firePropertyUpdate (pe\<lparr>val := v\<rparr>) w)
         (\<lambda>w1. Inr (w1\<lparr>intVars := (intVars w1)(a := IntVal v)\<rparr>))
   \<and> firePropertyUpdate ((Bind float64 pe (PtrBool a) ValTypeBoolInt)\<lparr>val := v\<rparr>) w =
       bindE (firePropertyUpdate (pe\<lparr>val := v\<rparr>) w)
         (\<lambda>w1. Inr (w1\<lparr>boolVars := (boolVars w1)(a := (IntVal v = 1))\<rparr>))
   \<and> firePropertyUpdate ((Bind float64 pe (PtrFloat32 a) ValTypeFloat32)\<lparr>val := v\<rparr>) w =
       bindE (firePropertyUpdate (pe\<lparr>val := v\<rparr>) w)
         (\<lambda>w1. Inr (w1\<lparr>float32Vars := (float32Vars w1)(a := FloatVal v)\<rparr>))
   \<and> firePropertyUpdate ((Bind float64 pe (PtrFloat64 a) ValTypeFloat64)\<lparr>val := v\<rparr>) w =
       bindE (firePropertyUpdate (pe\<lparr>val := v\<rparr>) w)
         (\<lambda>w1. Inr (w1\<lparr>float64Vars := (float64Vars w1)(a := float64 (FloatVal v))\<rparr>))
   \<and> firePropertyUpdate ((Bind float64 pe (PtrString a) ValTypeString)\<lparr>val := v\<rparr>) w =
       bindE (firePropertyUpdate (pe\<lparr>val := v\<rparr>) w)
         (\<lambda>w1. Inr (w1\<lparr>stringVars := (stringVars w1)(a := StringVal v)\<rparr>))
   \<and> firePropertyUpdate ((Bind float64 pe (PtrVector a) ValTypeVector)\<lparr>val := v\<rparr>) w =
       bindE (firePropertyUpdate (pe\<lparr>val := v\<rparr>) w)
         (\<lambda>w1. Inr (w1\<lparr>vectorVars := (vectorVars w1)(a := VectorVal v)\<rparr>))
   \<and> firePropertyUpdate ((Bind float64 pe (PtrArray a) ValTypeArray)\<lparr>val := v\<rparr>) w =
       bindE (firePropertyUpdate (pe\<lparr>val := v\<rparr>) w)
         (\<lambda>w1. Inr (w1\<lparr>arrayVars := (arrayVars w1)(a := ArrayVal v)\<rparr>))"
  by (intro conjI Bind_Int Bind_BoolInt Bind_Float32 Bind_Float64 Bind_String Bind_Vector
        Bind_Array Bind_unchanged[THEN conjunct1] Bind_unchanged[THEN conjunct2, THEN conjunct1]
        Bind_unchanged[THEN conjunct2, THEN conjunct2])


subsection \<open>Position\<close>

lemma find_unique_index:
  assumes "filter P ps = [p]"
  shows "find P ps = Some (ps ! length (takeWhile (\<lambda>x. \<not> P x) ps))"
  using assms
proof (induction ps)
  case Nil
  then show ?case by simp
next
  case (Cons a ps)
  then show ?case by (cases "P a") auto
qed

lemma FindProperty_value_unique:
  assumes "length (filter (\<lambda>p. name (entry p) = nm) (props e)) = 1"
  shows "FindProperty_value e nm = Inr (property_value e nm)"
proof -
  from assms obtain p where f: "filter (\<lambda>p. name (entry p) = nm) (props e) = [p]"
    by (cases "filter (\<lambda>p. name (entry p) = nm) (props e)") auto
  have "FindProperty e nm = Inr (Some (length (takeWhile (\<lambda>p. name (entry p) \<noteq> nm) (props e))))"
    by (simp add: FindProperty_def FindProperty_loop_None f)
  then show ?thesis using find_unique_index[OF f]
    by (simp add: FindProperty_value_def property_value_def bindE_def)
qed

lemma wrap64_id: "- (2 ^ 63) \<le> x \<Longrightarrow> x < 2 ^ 63 \<Longrightarrow> wrap64 x = x"
  by (simp only: wrap64_def signed_take_bit_int_eq_self)

lemma shl_one_exact: "0 \<le> ex \<Longrightarrow> ex < 63 \<Longrightarrow> shl_one (uint_of_int ex) = 2 ^ nat ex"
proof -
  assume a: "0 \<le> ex" "ex < 63"
  have "ex < 2 ^ 64" using a(2) by simp
  then have m: "ex mod 2 ^ 64 = ex" using a(1) by simp
  have n: "nat ex < 63" using a by linarith
  then have "(2::int) ^ nat ex < 2 ^ 63" by (simp only: power_strict_increasing_iff)
  moreover have "- (2 ^ 63) \<le> (2::int) ^ nat ex"
    by (rule order_trans[of _ 0]) simp_all
  ultimately have "wrap64 (2 ^ nat ex) = 2 ^ nat ex" by (rule wrap64_id[rotated])
  then show ?thesis using n m by (simp add: shl_one_def uint_of_int_def)
qed

lemma coord_int_exact:
  assumes "- (2 ^ 63) \<le> c * cw - 16384" "c * cw < 2 ^ 63"
  shows "int_sub (int_mul c cw) maxCoordInt = c * cw - 16384"
proof -
  have "- (2 ^ 63) \<le> c * cw" using assms(1) by linarith
  then have "wrap64 (c * cw) = c * cw" using assms(2) by (rule wrap64_id)
  moreover have "c * cw - 16384 < 2 ^ 63" using assms(2) by linarith
  then have "wrap64 (c * cw - 16384) = c * cw - 16384" using assms(1) by (intro wrap64_id)
  ultimately show ?thesis by (simp add: int_sub_def int_mul_def maxCoordInt_def)
qed


text \<open>
  Claim C9. When each of the five names is carried by exactly one property, Position
  returns the vector whose component on each axis is the \<^verbatim>\<open>float64\<close> sum of the
  converted integer \<open>cell * cellWidth - 16384\<close> and of the offset component, where
  \<open>cellWidth\<close> is \<open>1 << m_cellbits\<close>; the integer operations are those of \<^verbatim>\<open>int\<close>. When
  the exponent is in \<open>[0, 63)\<close> and no product or difference leaves the range of
  \<^verbatim>\<open>int\<close>, the integer is \<open>cell * 2 ^ exponent - 16384\<close>. The conversion and the
  addition of \<^verbatim>\<open>float64\<close> are parameters.
\<close>

theorem Position_formula:
  assumes "length (filter (\<lambda>p. name (entry p) = ''m_cellbits'') (props e)) = 1"
    and "length (filter (\<lambda>p. name (entry p) = ''m_cellX'') (props e)) = 1"
    and "length (filter (\<lambda>p. name (entry p) = ''m_cellY'') (props e)) = 1"
    and "length (filter (\<lambda>p. name (entry p) = ''m_cellZ'') (props e)) = 1"
    and "length (filter (\<lambda>p. name (entry p) = ''m_vecOrigin'') (props e)) = 1"
  shows "Position float64_of_int float64_add e =
      Inr (Vector
        (float64_add (float64_of_int
           (int_sub (int_mul (IntVal (property_value e ''m_cellX''))
              (shl_one (uint_of_int (IntVal (property_value e ''m_cellbits''))))) maxCoordInt))
           (X (VectorVal (property_value e ''m_vecOrigin''))))
        (float64_add (float64_of_int
           (int_sub (int_mul (IntVal (property_value e ''m_cellY''))
              (shl_one (uint_of_int (IntVal (property_value e ''m_cellbits''))))) maxCoordInt))
           (Y (VectorVal (property_value e ''m_vecOrigin''))))
        (float64_add (float64_of_int
           (int_sub (int_mul (IntVal (property_value e ''m_cellZ''))
              (shl_one (uint_of_int (IntVal (property_value e ''m_cellbits''))))) maxCoordInt))
           (Z (VectorVal (property_value e ''m_vecOrigin'')))))
    \<and> (0 \<le> IntVal (property_value e ''m_cellbits'') \<and> IntVal (property_value e ''m_cellbits'') < 63
        \<and> list_all (\<lambda>c. - (2 ^ 63) \<le> c * 2 ^ nat (IntVal (property_value e ''m_cellbits'')) - 16384
                       \<and> c * 2 ^ nat (IntVal (property_value e ''m_cellbits'')) < 2 ^ 63)
             [IntVal (property_value e ''m_cellX''), IntVal (property_value e ''m_cellY''),
              IntVal (property_value e ''m_cellZ'')]
        \<longrightarrow> Position float64_of_int float64_add e =
          Inr (Vector
            (float64_add (float64_of_int
               (IntVal (property_value e ''m_cellX'') * 2 ^ nat (IntVal (property_value e ''m_cellbits'')) - 16384))
               (X (VectorVal (property_value e ''m_vecOrigin''))))
            (float64_add (float64_of_int
               (IntVal (property_value e ''m_cellY'') * 2 ^ nat (IntVal (property_value e ''m_cellbits'')) - 16384))
               (Y (VectorVal (property_value e ''m_vecOrigin''))))
            (float64_add (float64_of_int
               (IntVal (property_value e ''m_cellZ'') * 2 ^ nat (IntVal (property_value e ''m_cellbits'')) - 16384))
               (Z (VectorVal (property_value e ''m_vecOrigin''))))))"
proof -
  have P: "Position float64_of_int float64_add e =
      Inr (Vector
        (float64_add (float64_of_int
           (int_sub (int_mul (IntVal (property_value e ''m_cellX''))
              (shl_one (uint_of_int (IntVal (property_value e ''m_cellbits''))))) maxCoordInt))
           (X (VectorVal (property_value e ''m_vecOrigin''))))
        (float64_add (float64_of_int
           (int_sub (int_mul (IntVal (property_value e ''m_cellY''))
              (shl_one (uint_of_int (IntVal (property_value e ''m_cellbits''))))) maxCoordInt))
           (Y (VectorVal (property_value e ''m_vecOrigin''))))
        (float64_add (float64_of_int
           (int_sub (int_mul (IntVal (property_value e ''m_cellZ''))
              (shl_one (uint_of_int (IntVal (property_value e ''m_cellbits''))))) maxCoordInt))
           (Z (VectorVal (property_value e ''m_vecOrigin'')))))"
    unfolding Position_def
    by (simp only: FindProperty_value_unique[OF assms(1)] FindProperty_value_unique[OF assms(2)]
          FindProperty_value_unique[OF assms(3)] FindProperty_value_unique[OF assms(4)]
          FindProperty_value_unique[OF assms(5)])
       (simp add: bindE_def Let_def coordFromCell_def)
  show ?thesis
  proof (intro conjI impI)
    show "Position float64_of_int float64_add e =
      Inr (Vector
        (float64_add (float64_of_int
           (int_sub (int_mul (IntVal (property_value e ''m_cellX''))
              (shl_one (uint_of_int (IntVal (property_value e ''m_cellbits''))))) maxCoordInt))
           (X (VectorVal (property_value e ''m_vecOrigin''))))
        (float64_add (float64_of_int
           (int_sub (int_mul (IntVal (property_value e ''m_cellY''))
              (shl_one (uint_of_int (IntVal (property_value e ''m_cellbits''))))) maxCoordInt))
           (Y (VectorVal (property_value e ''m_vecOrigin''))))
        (float64_add (float64_of_int
           (int_sub (int_mul (IntVal (property_value e ''m_cellZ''))
              (shl_one (uint_of_int (IntVal (property_value e ''m_cellbits''))))) maxCoordInt))
           (Z (VectorVal (property_value e ''m_vecOrigin'')))))"
      by (rule P)
  next
    assume a: "0 \<le> IntVal (property_value e ''m_cellbits'') \<and> IntVal (property_value e ''m_cellbits'') < 63
        \<and> list_all (\<lambda>c. - (2 ^ 63) \<le> c * 2 ^ nat (IntVal (property_value e ''m_cellbits'')) - 16384
                       \<and> c * 2 ^ nat (IntVal (property_value e ''m_cellbits'')) < 2 ^ 63)
             [IntVal (property_value e ''m_cellX''), IntVal (property_value e ''m_cellY''),
              IntVal (property_value e ''m_cellZ'')]"
    then have w: "shl_one (uint_of_int (IntVal (property_value e ''m_cellbits'')))
                 = 2 ^ nat (IntVal (property_value e ''m_cellbits''))"
      using shl_one_exact by blast
    have x: "int_sub (int_mul (IntVal (property_value e ''m_cellX''))
                (2 ^ nat (IntVal (property_value e ''m_cellbits'')))) maxCoordInt
             = IntVal (property_value e ''m_cellX'') * 2 ^ nat (IntVal (property_value e ''m_cellbits'')) - 16384"
      using a by (intro coord_int_exact) simp_all
    have y: "int_sub (int_mul (IntVal (property_value e ''m_cellY''))
                (2 ^ nat (IntVal (property_value e ''m_cellbits'')))) maxCoordInt
             = IntVal (property_value e ''m_cellY'') * 2 ^ nat (IntVal (property_value e ''m_cellbits'')) - 16384"
      using a by (intro coord_int_exact) simp_all
    have z: "int_sub (int_mul (IntVal (property_value e ''m_cellZ''))
                (2 ^ nat (IntVal (property_value e ''m_cellbits'')))) maxCoordInt
             = IntVal (property_value e ''m_cellZ'') * 2 ^ nat (IntVal (property_value e ''m_cellbits'')) - 16384"
      using a by (intro coord_int_exact) simp_all
    show "Position float64_of_int float64_add e =
          Inr (Vector
            (float64_add (float64_of_int
               (IntVal (property_value e ''m_cellX'') * 2 ^ nat (IntVal (property_value e ''m_cellbits'')) - 16384))
               (X (VectorVal (property_value e ''m_vecOrigin''))))
            (float64_add (float64_of_int
               (IntVal (property_value e ''m_cellY'') * 2 ^ nat (IntVal (property_value e ''m_cellbits'')) - 16384))
               (Y (VectorVal (property_value e ''m_vecOrigin''))))
            (float64_add (float64_of_int
               (IntVal (property_value e ''m_cellZ'') * 2 ^ nat (IntVal (property_value e ''m_cellbits'')) - 16384))
               (Z (VectorVal (property_value e ''m_vecOrigin'')))))"
      unfolding P w x y z ..
  qed
qed

lemma cell_props:
  "props cell_entity =
     [example_prop ''m_cellbits'' (example_value 5 (Vector 0 0 0)),
      example_prop ''m_cellX'' (example_value 10 (Vector 0 0 0)),
      example_prop ''m_cellY'' (example_value 0 (Vector 0 0 0)),
      example_prop ''m_cellZ'' (example_value 0 (Vector 0 0 0)),
      example_prop ''m_vecOrigin'' (example_value 0 (Vector (3 / 2) 0 0))]"
  by (simp add: cell_entity_def example_entity_def)

lemma cell_values:
  "property_value cell_entity ''m_cellbits'' = example_value 5 (Vector 0 0 0)"
  "property_value cell_entity ''m_cellX'' = example_value 10 (Vector 0 0 0)"
  "property_value cell_entity ''m_cellY'' = example_value 0 (Vector 0 0 0)"
  "property_value cell_entity ''m_cellZ'' = example_value 0 (Vector 0 0 0)"
  "property_value cell_entity ''m_vecOrigin'' = example_value 0 (Vector (3 / 2) 0 0)"
  by (simp_all add: property_value_def cell_props example_prop_def)

text \<open>
  Exponent 5, cell (10, 0, 0), offset (1.5, 0, 0), with the reals for \<^verbatim>\<open>float64\<close>: every
  number involved is a \<^verbatim>\<open>float64\<close>, so the conversion and the sum are exact.
\<close>

theorem Position_formula_witness:
  "length (filter (\<lambda>p. name (entry p) = ''m_cellbits'') (props cell_entity)) = 1
   \<and> length (filter (\<lambda>p. name (entry p) = ''m_cellX'') (props cell_entity)) = 1
   \<and> length (filter (\<lambda>p. name (entry p) = ''m_cellY'') (props cell_entity)) = 1
   \<and> length (filter (\<lambda>p. name (entry p) = ''m_cellZ'') (props cell_entity)) = 1
   \<and> length (filter (\<lambda>p. name (entry p) = ''m_vecOrigin'') (props cell_entity)) = 1
   \<and> Position real_of_int (+) cell_entity = Inr (Vector (- 16062.5) (- 16384) (- 16384))"
proof -
  have u: "length (filter (\<lambda>p. name (entry p) = ''m_cellbits'') (props cell_entity)) = 1"
    "length (filter (\<lambda>p. name (entry p) = ''m_cellX'') (props cell_entity)) = 1"
    "length (filter (\<lambda>p. name (entry p) = ''m_cellY'') (props cell_entity)) = 1"
    "length (filter (\<lambda>p. name (entry p) = ''m_cellZ'') (props cell_entity)) = 1"
    "length (filter (\<lambda>p. name (entry p) = ''m_vecOrigin'') (props cell_entity)) = 1"
    by (simp_all add: cell_props example_prop_name)
  note th = Position_formula[OF u, of real_of_int "(+)", THEN conjunct2, rule_format]
  have "Position real_of_int (+) cell_entity = Inr (Vector (- 16062.5) (- 16384) (- 16384))"
    by (subst th) (simp_all add: cell_values example_value_def)
  then show ?thesis using u by simp
qed


subsection \<open>The first loop of ApplyUpdate\<close>

lemma spec_raw_offset_bound:
  assumes "spec_raw_offset nw r = Inr (res, r')"
  shows "res \<le> 4095 \<and> length r' < length r"
proof -
  have ru: "x < 2 ^ n \<and> length q' + n = length q" if "read_uint n q = Inr (x, q')" "n \<le> 64" for n q x q'
  proof -
    from that(1) obtain y where y: "ReadInt n q = Inr (y, q')" "x = unat y"
      by (auto simp: read_uint_def bindE_def split: sum.splits)
    from ReadInt_unat[OF y(1) that(2)] show ?thesis using y(2) by simp
  qed
  from assms obtain b r2 where b: "(if nw then read_bit r else Inr (False, r)) = Inr (b, r2)"
    by (auto simp: spec_raw_offset_def bindE_def split: sum.splits)
  then have l2: "length r2 \<le> length r"
    by (auto simp: read_bit_def ReadBit_def split: if_splits list.splits)
  show ?thesis
  proof (cases b)
    case True
    then have "read_uint 3 r2 = Inr (res, r')"
      using assms b by (simp add: spec_raw_offset_def bindE_def)
    from ru[OF this] show ?thesis using l2 by simp
  next
    case False
    then obtain x r3 where x: "read_uint 7 r2 = Inr (x, r3)"
      using assms b by (auto simp: spec_raw_offset_def bindE_def split: sum.splits)
    from ru[OF x] have xb: "x < 128" and l3: "length r3 + 7 = length r2" by simp_all
    have ext: "res \<le> 4095 \<and> length r' \<le> length r3"
      if "bindE (read_uint n r3) (\<lambda>(ext, r4). Inr (replace_bits_5_6 x ext, r4)) = Inr (res, r')" "n \<le> 7" for n
    proof -
      from that(1) obtain e where e: "read_uint n r3 = Inr (e, r')" "res = replace_bits_5_6 x e"
        by (auto simp: bindE_def split: sum.splits)
      have "e < 2 ^ n \<and> length r' + n = length r3" using ru[OF e(1)] that(2) by simp
      moreover have "(2::nat) ^ n \<le> 2 ^ 7" using that(2) power_increasing[of n 7 "2::nat"] by simp
      ultimately have "e < 128" "length r' \<le> length r3" by simp_all
      then show ?thesis using replace_bound[OF xb] e(2) by simp
    qed
    have "res \<le> 4095 \<and> length r' \<le> length r3"
      using assms b False x xb ext[of 2] ext[of 4] ext[of 7]
      by (auto simp: spec_raw_offset_def bindE_def Let_def split: if_splits)
    then show ?thesis using l3 l2 by simp
  qed
qed

text \<open>One call: the stream gets shorter, and the result is the end marker or the
  previous index advanced by 1 to 4095.\<close>

lemma readFieldIndex_step:
  assumes "readFieldIndex r prev nw = Inr (idx', r')"
  shows "length r' < length r \<and> (idx' = - 1 \<or> (\<exists>d. 1 \<le> d \<and> d \<le> 4095 \<and> idx' = wrap64 (prev + d)))"
proof -
  from assms have s: "spec_field_index r prev nw = Inr (idx', r')"
    by (simp add: readFieldIndex_refines)
  then obtain a r1 where a: "(if nw then read_bit r else Inr (False, r)) = Inr (a, r1)"
    by (auto simp: spec_field_index_def bindE_def split: sum.splits)
  show ?thesis
  proof (cases a)
    case True
    then have "nw" using a by (auto split: if_splits)
    then have "length r1 < length r" using a
      by (auto simp: read_bit_def ReadBit_def split: list.splits)
    moreover have "idx' = wrap64 (prev + 1)" "r' = r1"
      using s a True by (auto simp: spec_field_index_def bindE_def)
    ultimately show ?thesis by auto
  next
    case False
    have l1: "length r1 \<le> length r" using a
      by (auto simp: read_bit_def ReadBit_def split: if_splits list.splits)
    from s a False obtain res where
      o: "spec_raw_offset nw r1 = Inr (res, r')"
      and i: "idx' = (if res = 4095 then - 1 else wrap64 (prev + 1 + int res))"
      by (auto simp: spec_field_index_def bindE_def split: sum.splits if_splits)
    from spec_raw_offset_bound[OF o] have b: "res \<le> 4095" "length r' < length r1" by simp_all
    show ?thesis
    proof (cases "res = 4095")
      case True
      then show ?thesis using i b l1 by simp
    next
      case False
      then have "1 \<le> 1 + int res \<and> 1 + int res \<le> 4095 \<and> idx' = wrap64 (prev + (1 + int res))"
        using i b by (simp add: add.assoc)
      then show ?thesis using b l1 by (metis (no_types) less_le_trans)
    qed
  qed
qed

lemma readFieldIndex_advance:
  assumes "readFieldIndex r prev nw = Inr (idx', r')" "- 1 \<le> prev"
    "prev + 4096 * int (length r) < 2 ^ 63" "idx' \<noteq> - 1"
  shows "prev < idx' \<and> idx' + 4096 * int (length r') < 2 ^ 63"
proof -
  from readFieldIndex_step[OF assms(1)] assms(4) obtain d where
    l: "length r' < length r" and d: "1 \<le> d" "d \<le> 4095" "idx' = wrap64 (prev + d)"
    by blast
  have len: "int (length r') + 1 \<le> int (length r)" using l by linarith
  then have "prev + d + 4096 * int (length r') < prev + 4096 * int (length r)" using d(2) by linarith
  then have up: "prev + d + 4096 * int (length r') < 2 ^ 63" using assms(3) by linarith
  then have "prev + d < 2 ^ 63" by linarith
  moreover have "- (2 ^ 63) \<le> prev + d" using assms(2) d(1) by simp
  ultimately have "wrap64 (prev + d) = prev + d" by (intro wrap64_id)
  then show ?thesis using d up by simp
qed

lemma ApplyUpdate_indices_sorted:
  assumes "ApplyUpdate_indices r idx nw acc = Inr (idxs, r')" "- 1 \<le> idx"
    "idx + 4096 * int (length r) < 2 ^ 63"
  shows "\<exists>new. idxs = acc @ new \<and> sorted_wrt (<) new \<and> (\<forall>a \<in> set new. idx < a)"
  using assms
proof (induction r idx nw acc rule: ApplyUpdate_indices.induct)
  case (1 reader idx newWay acc)
  from "1.prems"(1) obtain idx' reader' where
    rd: "readFieldIndex reader idx newWay = Inr (idx', reader')"
    by (subst (asm) ApplyUpdate_indices.simps) (auto split: sum.splits)
  show ?case
  proof (cases "idx' = - 1")
    case True
    then have "idxs = acc" using "1.prems"(1) rd
      by (subst (asm) ApplyUpdate_indices.simps) simp
    then show ?thesis by simp
  next
    case False
    then have rec: "ApplyUpdate_indices reader' idx' newWay (acc @ [idx']) = Inr (idxs, r')"
      using "1.prems"(1) rd by (subst (asm) ApplyUpdate_indices.simps) simp
    from readFieldIndex_advance[OF rd "1.prems"(2,3) False]
    have adv: "idx < idx'" "idx' + 4096 * int (length reader') < 2 ^ 63" by simp_all
    then have "- 1 \<le> idx'" using "1.prems"(2) by linarith
    from "1.IH"[OF rd refl False rec this adv(2)] obtain new where
      new: "idxs = (acc @ [idx']) @ new" "sorted_wrt (<) new" "\<forall>a \<in> set new. idx' < a"
      by blast
    have "idxs = acc @ (idx' # new)" using new(1) by simp
    moreover have "sorted_wrt (<) (idx' # new)" using new(2,3) by simp
    moreover have "\<forall>a \<in> set (idx' # new). idx < a" using new(3) adv(1) by auto
    ultimately show ?thesis by blast
  qed
qed


subsection \<open>The second loop of ApplyUpdate is the loop of section 4.2\<close>

lemma firePropertyUpdate_val:
  "firePropertyUpdate (pe\<lparr>val := v\<rparr>) w = firePropertyUpdate_loop (updateHandlers pe) v w"
  by (simp add: firePropertyUpdate_def)

lemma ApplyUpdate_props_Cons:
  assumes "0 \<le> idx" "idx < int (length ps)"
  shows "ApplyUpdate_props dec ps (idx # idxs) r w =
     bindE (dec (map entry ps ! nat idx) r) (\<lambda>(v, r1).
       bindE (firePropertyUpdate_loop (map updateHandlers ps ! nat idx) v w) (\<lambda>w1.
         ApplyUpdate_props dec (ps[nat idx := (ps ! nat idx)\<lparr>val := v\<rparr>]) idxs r1 w1))"
proof -
  have i: "nat idx < length ps" using assms by linarith
  show ?thesis using assms i
    by (cases "dec (entry (ps ! nat idx)) r")
       (auto simp: decodeProp_def bindE_def firePropertyUpdate_val)
qed

lemma store_step_fields:
  assumes "i < length ps"
  shows "map entry (ps[i := (ps ! i)\<lparr>val := v\<rparr>]) = map entry ps"
    and "map updateHandlers (ps[i := (ps ! i)\<lparr>val := v\<rparr>]) = map updateHandlers ps"
  using assms by (simp_all add: update_same_field)

lemma ApplyUpdate_props_sound:
  assumes "ApplyUpdate_props dec ps idxs r w = Inr (ps', r', w')"
  shows "\<exists>vs. decode_in_order dec (map entry ps) idxs r = Inr (vs, r')
           \<and> fire_in_order (map updateHandlers ps) idxs vs w = Inr w'
           \<and> ps' = store_values ps idxs vs \<and> length vs = length idxs"
  using assms
proof (induction idxs arbitrary: ps r w)
  case Nil
  then show ?case by simp
next
  case (Cons idx idxs)
  from ApplyUpdate_props_shape[OF Cons.prems] have rng: "0 \<le> idx" "idx < int (length ps)"
    by simp_all
  then have i: "nat idx < length ps" by linarith
  from Cons.prems obtain v r1 w1 where
    d: "dec (map entry ps ! nat idx) r = Inr (v, r1)"
    and f: "firePropertyUpdate_loop (map updateHandlers ps ! nat idx) v w = Inr w1"
    and rest: "ApplyUpdate_props dec (ps[nat idx := (ps ! nat idx)\<lparr>val := v\<rparr>]) idxs r1 w1 = Inr (ps', r', w')"
    unfolding ApplyUpdate_props_Cons[OF rng] by (auto simp: bindE_def split: sum.splits)
  from Cons.IH[OF rest] obtain vs where
    vs: "decode_in_order dec (map entry ps) idxs r1 = Inr (vs, r')"
      "fire_in_order (map updateHandlers ps) idxs vs w1 = Inr w'"
      "ps' = store_values (ps[nat idx := (ps ! nat idx)\<lparr>val := v\<rparr>]) idxs vs"
      "length vs = length idxs"
    unfolding store_step_fields[OF i] by blast
  have "decode_in_order dec (map entry ps) (idx # idxs) r = Inr (v # vs, r')"
    using d vs(1) by (simp add: bindE_def)
  moreover have "fire_in_order (map updateHandlers ps) (idx # idxs) (v # vs) w = Inr w'"
    using f vs(2) by (simp add: bindE_def)
  moreover have "ps' = store_values ps (idx # idxs) (v # vs)" using vs(3) by simp
  ultimately show ?case using vs(4) by (intro exI[of _ "v # vs"]) simp
qed

lemma ApplyUpdate_props_complete:
  assumes "\<forall>idx \<in> set idxs. 0 \<le> idx \<and> idx < int (length ps)"
    and "decode_in_order dec (map entry ps) idxs r = Inr (vs, r')"
    and "fire_in_order (map updateHandlers ps) idxs vs w = Inr w'"
  shows "ApplyUpdate_props dec ps idxs r w = Inr (store_values ps idxs vs, r', w')"
  using assms
proof (induction idxs arbitrary: ps r w vs)
  case Nil
  then show ?case by simp
next
  case (Cons idx idxs)
  from Cons.prems(1) have rng: "0 \<le> idx" "idx < int (length ps)" by simp_all
  then have i: "nat idx < length ps" by linarith
  from Cons.prems(2) obtain v r1 vs1 where
    d: "dec (map entry ps ! nat idx) r = Inr (v, r1)"
    and ds: "decode_in_order dec (map entry ps) idxs r1 = Inr (vs1, r')"
    and vs: "vs = v # vs1"
    by (auto simp: bindE_def split: sum.splits)
  from Cons.prems(3) vs obtain w1 where
    f: "firePropertyUpdate_loop (map updateHandlers ps ! nat idx) v w = Inr w1"
    and fs: "fire_in_order (map updateHandlers ps) idxs vs1 w1 = Inr w'"
    by (auto simp: bindE_def split: sum.splits)
  let ?ps = "ps[nat idx := (ps ! nat idx)\<lparr>val := v\<rparr>]"
  have "\<forall>idx \<in> set idxs. 0 \<le> idx \<and> idx < int (length ?ps)" using Cons.prems(1) by simp
  moreover have "decode_in_order dec (map entry ?ps) idxs r1 = Inr (vs1, r')"
    using ds by (simp only: store_step_fields[OF i])
  moreover have "fire_in_order (map updateHandlers ?ps) idxs vs1 w1 = Inr w'"
    using fs by (simp only: store_step_fields[OF i])
  ultimately have "ApplyUpdate_props dec ?ps idxs r1 w1 = Inr (store_values ?ps idxs vs1, r', w')"
    by (rule Cons.IH)
  then show ?case unfolding ApplyUpdate_props_Cons[OF rng] using d f vs by (simp add: bindE_def)
qed

lemma store_values_fields:
  assumes "\<forall>idx \<in> set idxs. 0 \<le> idx \<and> idx < int (length ps)"
  shows "length (store_values ps idxs vs) = length ps
       \<and> map entry (store_values ps idxs vs) = map entry ps
       \<and> map updateHandlers (store_values ps idxs vs) = map updateHandlers ps"
  using assms
proof (induction ps idxs vs rule: store_values.induct)
  case (1 ps idx idxs v vs)
  then have i: "nat idx < length ps" by simp linarith
  have "\<forall>j \<in> set idxs. 0 \<le> j \<and> j < int (length (ps[nat idx := (ps ! nat idx)\<lparr>val := v\<rparr>]))"
    using "1.prems" by simp
  from "1.IH"[OF this] show ?case by (simp add: store_step_fields[OF i])
qed simp_all

text \<open>With increasing indices, each updated property ends with the value decoded for it.\<close>

lemma store_values_untouched:
  assumes "int i \<notin> set idxs" "i < length ps" "\<forall>idx \<in> set idxs. 0 \<le> idx"
  shows "store_values ps idxs vs ! i = ps ! i"
  using assms
proof (induction ps idxs vs rule: store_values.induct)
  case (1 ps idx idxs v vs)
  then have "nat idx \<noteq> i" by auto
  then show ?case using 1 by simp
qed simp_all

lemma store_values_nth:
  assumes "distinct idxs" "\<forall>idx \<in> set idxs. 0 \<le> idx \<and> idx < int (length ps)"
    "length vs = length idxs" "k < length idxs"
  shows "val (store_values ps idxs vs ! nat (idxs ! k)) = vs ! k"
  using assms
proof (induction ps idxs vs arbitrary: k rule: store_values.induct)
  case (1 ps idx idxs v vs)
  then have i: "nat idx < length ps" by simp linarith
  let ?ps = "ps[nat idx := (ps ! nat idx)\<lparr>val := v\<rparr>]"
  show ?case
  proof (cases k)
    case 0
    have "int (nat idx) \<notin> set idxs" using "1.prems"(1,2) by simp
    then have "store_values ?ps idxs vs ! nat idx = ?ps ! nat idx"
      using i "1.prems"(2) by (intro store_values_untouched) simp_all
    then show ?thesis using 0 i by simp
  next
    case (Suc k')
    have "val (store_values ?ps idxs vs ! nat (idxs ! k')) = vs ! k'"
      using "1.prems" Suc by (intro "1.IH") simp_all
    then show ?thesis using Suc by simp
  qed
qed simp_all

lemma decode_in_order_length:
  "decode_in_order dec es idxs r = Inr (vs, r') \<Longrightarrow> length vs = length idxs"
  by (induction idxs arbitrary: r vs) (auto simp: bindE_def split: sum.splits)

subsection \<open>Recording handlers\<close>

lemma fire_log_handlers:
  "firePropertyUpdate_loop (map (log_handler i) js) v w = Inr (w @ map (\<lambda>j. (i, j, v)) js)"
  by (induction js arbitrary: w) (simp_all add: log_handler_def bindE_def)

lemma fire_in_order_log:
  assumes "\<forall>idx \<in> set idxs. 0 \<le> idx \<and> idx < int (length hss)"
    and "\<forall>i < length hss. hss ! i = map (log_handler i) [0..<length (hss ! i)]"
    and "length vs = length idxs"
  shows "fire_in_order hss idxs vs w =
     Inr (w @ concat (map2 (\<lambda>idx v. map (\<lambda>j. (nat idx, j, v)) [0..<length (hss ! nat idx)]) idxs vs))"
  using assms
proof (induction hss idxs vs w rule: fire_in_order.induct)
  case (1 hss idx idxs v vs w)
  then have i: "nat idx < length hss" by simp linarith
  then have h: "hss ! nat idx = map (log_handler (nat idx)) [0..<length (hss ! nat idx)]"
    using "1.prems"(2) by blast
  have "firePropertyUpdate_loop (hss ! nat idx) v w =
      Inr (w @ map (\<lambda>j. (nat idx, j, v)) [0..<length (hss ! nat idx)])"
    by (subst h) (simp only: fire_log_handlers length_map length_upt minus_nat.diff_0)
  then show ?case using "1.IH" "1.prems"
    by (simp add: bindE_def)
qed simp_all



subsection \<open>ApplyUpdate\<close>

lemma ApplyUpdate_Cons:
  "ApplyUpdate dec e (newWay # bits) w =
     bindE (ApplyUpdate_indices bits (- 1) newWay []) (\<lambda>(idxs, r2).
       bindE (ApplyUpdate_props dec (props e) idxs r2 w) (\<lambda>(ps, r3, w').
         Inr (e\<lparr>props := ps\<rparr>, r3, w')))"
  by (simp add: ApplyUpdate_def ReadBit_def bindE_def)

text \<open>
  Claim C2. ApplyUpdate takes the first bit of the record as the flag and decodes the
  indices from the rest, starting from -1. For a record of at most \<open>2 ^ 51\<close> bits (no
  index can then leave the range of \<^verbatim>\<open>int\<close>) the indices it collects are strictly
  increasing.
  The values are decoded in that order; with recording handlers on every property,
  the calls recorded are, index by index in that order, the handlers of the property
  in their order of registration, each with the value decoded for that property,
  which is also the value the property has in the end.
\<close>

theorem ApplyUpdate_fires_in_ascending_order:
  assumes "ApplyUpdate dec e r w = Inr (e', r', w')"
    and "length r \<le> 2 ^ 51"
    and "\<forall>i < length (props e). updateHandlers (props e ! i)
           = map (log_handler i) [0..<length (updateHandlers (props e ! i))]"
  shows "\<exists>newWay bits idxs r2 vs.
      r = newWay # bits
      \<and> ApplyUpdate_indices bits (- 1) newWay [] = Inr (idxs, r2)
      \<and> sorted_wrt (<) idxs
      \<and> (\<forall>idx \<in> set idxs. 0 \<le> idx \<and> idx < int (length (props e)))
      \<and> decode_in_order dec (map entry (props e)) idxs r2 = Inr (vs, r')
      \<and> w' = w @ concat (map2 (\<lambda>idx v. map (\<lambda>j. (nat idx, j, v))
                      [0..<length (updateHandlers (props e ! nat idx))]) idxs vs)
      \<and> props e' = store_values (props e) idxs vs
      \<and> (\<forall>k < length idxs. val (props e' ! nat (idxs ! k)) = vs ! k)"
proof -
  from assms(1) obtain newWay bits where r: "r = newWay # bits"
    by (cases r) (auto simp: ApplyUpdate_def ReadBit_def bindE_def)
  from assms(1) obtain idxs r2 where
    ix: "ApplyUpdate_indices bits (- 1) newWay [] = Inr (idxs, r2)"
    and ps: "ApplyUpdate_props dec (props e) idxs r2 w = Inr (props e', r', w')"
    unfolding r ApplyUpdate_Cons by (auto simp: bindE_def split: sum.splits)
  have "length bits < 2 ^ 51" using assms(2) r by simp
  then have "int (length bits) < 2 ^ 51" by (metis of_nat_less_iff of_nat_numeral of_nat_power)
  then have "- 1 + 4096 * int (length bits) < 2 ^ 63" by simp
  from ApplyUpdate_indices_sorted[OF ix _ this]
  have sorted: "sorted_wrt (<) idxs" and pos: "\<forall>a \<in> set idxs. - 1 < a" by auto
  then have dist: "distinct idxs" using strict_sorted_iff by blast
  from ApplyUpdate_props_shape[OF ps]
  have rng: "\<forall>idx \<in> set idxs. 0 \<le> idx \<and> idx < int (length (props e))" by simp
  from ApplyUpdate_props_sound[OF ps] obtain vs where
    vs: "decode_in_order dec (map entry (props e)) idxs r2 = Inr (vs, r')"
      "fire_in_order (map updateHandlers (props e)) idxs vs w = Inr w'"
      "props e' = store_values (props e) idxs vs" "length vs = length idxs"
    by blast
  have hs: "map updateHandlers (props e) ! nat idx = updateHandlers (props e ! nat idx)"
    if "idx \<in> set idxs" for idx
  proof -
    have "nat idx < length (props e)" using rng that by auto
    then show ?thesis by simp
  qed
  have "fire_in_order (map updateHandlers (props e)) idxs vs w =
     Inr (w @ concat (map2 (\<lambda>idx v. map (\<lambda>j. (nat idx, j, v))
        [0..<length (map updateHandlers (props e) ! nat idx)]) idxs vs))"
    using rng assms(3) vs(4) by (intro fire_in_order_log) simp_all
  also have "map2 (\<lambda>idx v. map (\<lambda>j. (nat idx, j, v))
        [0..<length (map updateHandlers (props e) ! nat idx)]) idxs vs
      = map2 (\<lambda>idx v. map (\<lambda>j. (nat idx, j, v))
        [0..<length (updateHandlers (props e ! nat idx))]) idxs vs"
    by (rule map_cong[OF refl]) (auto simp: hs dest: set_zip_leftD)
  finally have w': "w' = w @ concat (map2 (\<lambda>idx v. map (\<lambda>j. (nat idx, j, v))
                      [0..<length (updateHandlers (props e ! nat idx))]) idxs vs)"
    using vs(2) by simp
  have "\<forall>k < length idxs. val (props e' ! nat (idxs ! k)) = vs ! k"
    unfolding vs(3) using store_values_nth[OF dist rng vs(4)] by blast
  then show ?thesis using r ix sorted rng vs(1,3) w' by blast
qed

subsection \<open>Indices outside the property list\<close>

lemma ApplyUpdate_props_stops:
  assumes "\<forall>idx \<in> set good. 0 \<le> idx \<and> idx < int (length ps)"
    and "\<not> (0 \<le> bad \<and> bad < int (length ps))"
  shows "ApplyUpdate_props dec ps (good @ bad # rest) r w =
     (case ApplyUpdate_props dec ps good r w of
        Inl err \<Rightarrow> Inl err | Inr res \<Rightarrow> Inl (IndexOutOfRange bad))"
  using assms
proof (induction good arbitrary: ps r w)
  case Nil
  then show ?case by auto
next
  case (Cons idx good)
  then have rng: "0 \<le> idx" "idx < int (length ps)" by simp_all
  have ih: "ApplyUpdate_props dec (ps[nat idx := pe]) (good @ bad # rest) r1 w1 =
     (case ApplyUpdate_props dec (ps[nat idx := pe]) good r1 w1 of
        Inl err \<Rightarrow> Inl err | Inr res \<Rightarrow> Inl (IndexOutOfRange bad))" for pe r1 w1
    using Cons.prems by (intro Cons.IH) simp_all
  show ?case
    unfolding append_Cons ApplyUpdate_props_Cons[OF rng]
    by (simp add: bindE_def ih split: sum.splits)
qed

text \<open>
  Claim C4. When one of the decoded indices is outside the property list, ApplyUpdate
  panics. It updates the properties of the indices before the first such index, all
  of them inside the list, and panics at that index with the index-out-of-range panic
  of \<^verbatim>\<open>e.props[idx]\<close>, unless a decoder or a handler has panicked before. Nothing is
  decoded or written for that index or a later one, and ApplyUpdate does not return.
\<close>

theorem ApplyUpdate_out_of_range_panics:
  assumes "ApplyUpdate_indices bits (- 1) newWay [] = Inr (idxs, r2)"
    and "\<exists>idx \<in> set idxs. \<not> (0 \<le> idx \<and> idx < int (length (props e)))"
  shows "\<exists>good bad rest. idxs = good @ bad # rest
      \<and> (\<forall>idx \<in> set good. 0 \<le> idx \<and> idx < int (length (props e)))
      \<and> \<not> (0 \<le> bad \<and> bad < int (length (props e)))
      \<and> ApplyUpdate dec e (newWay # bits) w =
           (case ApplyUpdate_props dec (props e) good r2 w of
              Inl err \<Rightarrow> Inl err | Inr res \<Rightarrow> Inl (IndexOutOfRange bad))
      \<and> isl (ApplyUpdate dec e (newWay # bits) w)"
proof -
  from split_list_first_prop[OF assms(2)] obtain good bad rest where
    s: "idxs = good @ bad # rest" "\<not> (0 \<le> bad \<and> bad < int (length (props e)))"
      "\<forall>idx \<in> set good. \<not> \<not> (0 \<le> idx \<and> idx < int (length (props e)))"
    by blast
  then have g: "\<forall>idx \<in> set good. 0 \<le> idx \<and> idx < int (length (props e))" by blast
  have a: "ApplyUpdate dec e (newWay # bits) w =
           (case ApplyUpdate_props dec (props e) good r2 w of
              Inl err \<Rightarrow> Inl err | Inr res \<Rightarrow> Inl (IndexOutOfRange bad))"
    unfolding ApplyUpdate_Cons assms(1) s(1)
    by (simp add: bindE_def ApplyUpdate_props_stops[OF g s(2)] split: sum.splits)
  then have "isl (ApplyUpdate dec e (newWay # bits) w)" by (simp split: sum.splits)
  then show ?thesis using s(1,2) g a by blast
qed

subsection \<open>ApplyUpdate on the example records\<close>


lemma logged_props:
  "props logged_entity =
     [(example_prop ''a'' (example_value 1 (Vector 0 0 0)))
        \<lparr>updateHandlers := [log_handler 0 0, log_handler 0 1]\<rparr>,
      (example_prop ''b'' (example_value 2 (Vector 0 0 0)))
        \<lparr>updateHandlers := [log_handler 1 0]\<rparr>,
      example_prop ''c'' (example_value 3 (Vector 0 0 0)),
      (example_prop ''d'' (example_value 4 (Vector 0 0 0)))
        \<lparr>updateHandlers := [log_handler 3 0, log_handler 3 1]\<rparr>]"
  by (simp add: logged_entity_def example_entity_def)

lemma logged_handlers:
  "\<forall>i < length (props logged_entity). updateHandlers (props logged_entity ! i)
           = map (log_handler i) [0..<length (updateHandlers (props logged_entity ! i))]"
proof (intro allI impI)
  fix i assume "i < length (props logged_entity)"
  then have "i < 4" by (simp add: logged_props)
  then have "i = 0 \<or> i = 1 \<or> i = 2 \<or> i = 3" by arith
  then show "updateHandlers (props logged_entity ! i)
           = map (log_handler i) [0..<length (updateHandlers (props logged_entity ! i))]"
    by (auto simp: logged_props example_prop_def numeral_2_eq_2)
qed

text \<open>
  On the example record and the entity a, b, c, d: the indices are 0 and 3, and the
  calls recorded are the two handlers of property 0 with the value 5, then the two
  handlers of property 3 with the value 6.
\<close>

theorem ApplyUpdate_fires_in_ascending_order_witness:
  "length example_stream \<le> 2 ^ 51
   \<and> \<not> isl (ApplyUpdate example_decoder logged_entity example_stream [])
   \<and> ApplyUpdate_indices (tl example_stream) (- 1) (hd example_stream) [] = Inr ([0, 3], drop 23 example_stream)
   \<and> snd (snd (projr (ApplyUpdate example_decoder logged_entity example_stream [])))
       = [(0, 0, example_value 5 (Vector 0 0 0)), (0, 1, example_value 5 (Vector 0 0 0)),
          (3, 0, example_value 6 (Vector 0 0 0)), (3, 1, example_value 6 (Vector 0 0 0))]"
proof -
  let ?R = "ApplyUpdate example_decoder logged_entity example_stream []"
  have st: "example_stream = True # tl example_stream" by (simp add: example_stream_def end_marker_def)
  have len: "length example_stream \<le> 2 ^ 51" by (simp add: example_stream_def end_marker_def)
  have ok: "\<not> isl ?R" by code_simp
  then obtain y where "?R = Inr y" by (cases ?R) auto
  then obtain e' r' w' where R: "?R = Inr (e', r', w')" by (cases y) auto
  have ix: "ApplyUpdate_indices (tl example_stream) (- 1) True [] = Inr ([0, 3], drop 23 example_stream)"
    by code_simp
  have dc: "decode_in_order example_decoder (map entry (props logged_entity)) [0, 3] (drop 23 example_stream)
      = Inr ([example_value 5 (Vector 0 0 0), example_value 6 (Vector 0 0 0)], [])"
    by code_simp
  from ApplyUpdate_fires_in_ascending_order[OF R len logged_handlers] obtain newWay bits idxs r2 vs where
    nb: "example_stream = newWay # bits"
    and c: "ApplyUpdate_indices bits (- 1) newWay [] = Inr (idxs, r2)"
      "decode_in_order example_decoder (map entry (props logged_entity)) idxs r2 = Inr (vs, r')"
      "w' = [] @ concat (map2 (\<lambda>idx v. map (\<lambda>j. (nat idx, j, v))
                      [0..<length (updateHandlers (props logged_entity ! nat idx))]) idxs vs)"
    by blast
  from nb st have "newWay # bits = True # tl example_stream" by metis
  then have "newWay = True" "bits = tl example_stream" by simp_all
  with c(1) ix have i: "idxs = [0, 3]" "r2 = drop 23 example_stream" by simp_all
  from c(2) dc i have v: "vs = [example_value 5 (Vector 0 0 0), example_value 6 (Vector 0 0 0)]" by simp
  have "w' = [(0, 0, example_value 5 (Vector 0 0 0)), (0, 1, example_value 5 (Vector 0 0 0)),
          (3, 0, example_value 6 (Vector 0 0 0)), (3, 1, example_value 6 (Vector 0 0 0))]"
    unfolding c(3) i v by (simp add: logged_props example_prop_def numeral_2_eq_2)
  moreover have "hd example_stream = True" by (simp add: example_stream_def end_marker_def)
  ultimately show ?thesis using len ok ix R by simp
qed

text \<open>
  On the entity a, b, c, b of four properties and a record with the indices 0 and 5:
  property 0 is updated and ApplyUpdate panics at index 5.
\<close>

theorem ApplyUpdate_out_of_range_panics_witness:
  "ApplyUpdate_indices (tl overlong_stream) (- 1) True [] = Inr ([0, 5], drop 23 overlong_stream)
   \<and> ApplyUpdate example_decoder (abc_entity :: (real, real, unit, unit) Entity) (True # tl overlong_stream) ()
       = Inl (IndexOutOfRange 5)"
proof -
  let ?e = "abc_entity :: (real, real, unit, unit) Entity"
  have ix: "ApplyUpdate_indices (tl overlong_stream) (- 1) True [] = Inr ([0, 5], drop 23 overlong_stream)"
    by code_simp
  have bad: "\<exists>idx \<in> set [0, 5]. \<not> (0 \<le> idx \<and> idx < int (length (props ?e)))"
    by (simp add: abc_props)
  from ApplyUpdate_out_of_range_panics[OF ix bad, of example_decoder "()"] obtain good bad rest where
    s: "[0, 5] = good @ bad # rest"
      "\<forall>idx \<in> set good. 0 \<le> idx \<and> idx < int (length (props ?e))"
      "\<not> (0 \<le> bad \<and> bad < int (length (props ?e)))"
      "ApplyUpdate example_decoder ?e (True # tl overlong_stream) () =
           (case ApplyUpdate_props example_decoder (props ?e) good (drop 23 overlong_stream) () of
              Inl err \<Rightarrow> Inl err | Inr res \<Rightarrow> Inl (IndexOutOfRange bad))"
    by blast
  from s(1,2,3) have gb: "good = [0]" "bad = 5"
    by (auto simp: abc_props Cons_eq_append_conv)
  note s4 = s(4)[unfolded gb]
  have "\<not> isl (ApplyUpdate_props example_decoder (props ?e) [0] (drop 23 overlong_stream) ())"
    by code_simp
  then have pr: "ApplyUpdate_props example_decoder (props ?e) [0] (drop 23 overlong_stream) ()
      = Inr (projr (ApplyUpdate_props example_decoder (props ?e) [0] (drop 23 overlong_stream) ()))"
    by simp
  have "ApplyUpdate example_decoder ?e (True # tl overlong_stream) () = Inl (IndexOutOfRange 5)"
    by (subst s4, subst pr) (simp only: sum.case)
  then show ?thesis using ix by (rule conjI[rotated])
qed


subsection \<open>Baselines\<close>

lemma fire_lifted:
  "firePropertyUpdate_loop (map lift_handler hs) v (b, w) =
     bindE (firePropertyUpdate_loop hs v w) (\<lambda>w'. Inr (b, w'))"
proof (induction hs arbitrary: w)
  case Nil
  then show ?case by (simp add: bindE_def)
next
  case (Cons a hs)
  show ?case
  proof (cases a)
    case None
    then show ?thesis using Cons.IH by (simp add: lift_handler_def)
  next
    case (Some f)
    then show ?thesis using Cons.IH
      by (cases "f v w") (simp_all add: lift_handler_def bindE_def)
  qed
qed

lemma fire_lifted_adder:
  "firePropertyUpdate_loop (map lift_handler hs @ [adder k]) v (b, w) =
     bindE (firePropertyUpdate_loop hs v w) (\<lambda>w'. Inr (AList.update k v b, w'))"
  by (cases "firePropertyUpdate_loop hs v w")
     (simp_all add: firePropertyUpdate_loop_append fire_lifted adder_def bindE_def)

lemma initializeBaseline_attach_nth:
  assumes "i < length ps"
  shows "initializeBaseline_attach k (map lift_property ps) ! i =
     \<lparr>entry = entry (ps ! i),
      updateHandlers = map lift_handler (updateHandlers (ps ! i)) @ [adder (int (k + i))],
      val = val (ps ! i)\<rparr>"
  using assms
proof (induction ps arbitrary: k i)
  case Nil
  then show ?case by simp
next
  case (Cons p ps)
  show ?case
  proof (cases i)
    case 0
    then show ?thesis by (simp add: OnUpdate_def lift_property_def)
  next
    case (Suc j)
    then show ?thesis using Cons.IH[of j "Suc k"] Cons.prems by simp
  qed
qed

lemma initializeBaseline_attach_entries:
  "map entry (initializeBaseline_attach k (map lift_property ps)) = map entry ps"
  by (induction ps arbitrary: k) (simp_all add: OnUpdate_def lift_property_def)

text \<open>The map collected by the adders: one assignment for each index, in order.\<close>

lemma fire_in_order_adders:
  assumes "fire_in_order hss idxs vs (b, w) = Inr (b', w')"
    and "\<forall>idx \<in> set idxs. 0 \<le> idx \<and> idx < int (length hss)"
    and "\<forall>i < length hss. \<exists>hs. hss ! i = map lift_handler hs @ [adder (int i)]"
  shows "b' = fold (\<lambda>(k, v). AList.update k v) (zip idxs vs) b"
  using assms
proof (induction idxs arbitrary: vs b w)
  case Nil
  then show ?case by simp
next
  case (Cons idx idxs)
  show ?case
  proof (cases vs)
    case Nil
    then show ?thesis using Cons.prems(1) by simp
  next
    case (Cons v vs1)
    have i: "nat idx < length hss" "int (nat idx) = idx" using Cons.prems(2) by auto
    then obtain hs where hs: "hss ! nat idx = map lift_handler hs @ [adder idx]"
      using Cons.prems(3) by fastforce
    from Cons.prems(1) Cons obtain w1 where
      f: "firePropertyUpdate_loop hs v w = Inr w1"
      and rest: "fire_in_order hss idxs vs1 (AList.update idx v b, w1) = Inr (b', w')"
      by (auto simp: hs fire_lifted_adder bindE_def split: sum.splits)
    from Cons.IH[OF rest] Cons.prems(2,3)
    have "b' = fold (\<lambda>(k, v). AList.update k v) (zip idxs vs1) (AList.update idx v b)" by simp
    then show ?thesis using Cons by simp
  qed
qed

lemma fold_update_keys:
  "fst ` set (fold (\<lambda>(k, v). AList.update k v) kvs b) = fst ` set kvs \<union> fst ` set b"
proof (induction kvs arbitrary: b)
  case Nil
  then show ?case by simp
next
  case (Cons kv kvs)
  obtain k v where kv: "kv = (k, v)" by (cases kv)
  show ?case using Cons.IH[of "AList.update k v b"] kv by (simp add: dom_update)
qed

lemma fold_update_distinct:
  "distinct (map fst b) \<Longrightarrow> distinct (map fst (fold (\<lambda>(k, v). AList.update k v) kvs b))"
  by (induction kvs arbitrary: b) (auto simp: distinct_update)

text \<open>The stored values and the collected map agree.\<close>

lemma store_values_map_of:
  assumes "\<forall>idx \<in> set idxs. 0 \<le> idx \<and> idx < int (length ps)"
    and "length ps = length ps0"
    and "\<forall>i < length ps. val (ps ! i) = (case map_of b (int i) of Some v \<Rightarrow> v | None \<Rightarrow> val (ps0 ! i))"
    and "i < length ps"
  shows "val (store_values ps idxs vs ! i) =
     (case map_of (fold (\<lambda>(k, v). AList.update k v) (zip idxs vs) b) (int i) of
        Some v \<Rightarrow> v | None \<Rightarrow> val (ps0 ! i))"
  using assms
proof (induction ps idxs vs arbitrary: b rule: store_values.induct)
  case (1 ps idx idxs v vs)
  then have k: "nat idx < length ps" "int (nat idx) = idx" by auto
  let ?ps = "ps[nat idx := (ps ! nat idx)\<lparr>val := v\<rparr>]"
  have "\<forall>j < length ?ps. val (?ps ! j) =
      (case map_of (AList.update idx v b) (int j) of Some v \<Rightarrow> v | None \<Rightarrow> val (ps0 ! j))"
  proof (intro allI impI)
    fix j assume j: "j < length ?ps"
    show "val (?ps ! j) =
      (case map_of (AList.update idx v b) (int j) of Some v \<Rightarrow> v | None \<Rightarrow> val (ps0 ! j))"
    proof (cases "j = nat idx")
      case True
      then show ?thesis using k by (simp add: update_conv')
    next
      case False
      then have "int j \<noteq> idx" using k by auto
      then show ?thesis using False j "1.prems"(3) by (simp add: update_conv')
    qed
  qed
  then have "val (store_values ?ps idxs vs ! i) =
     (case map_of (fold (\<lambda>(k, v). AList.update k v) (zip idxs vs) (AList.update idx v b)) (int i) of
        Some v \<Rightarrow> v | None \<Rightarrow> val (ps0 ! i))"
    using "1.prems" by (intro "1.IH") simp_all
  then show ?case by simp
qed simp_all

lemma applyBaseline_loop_values:
  assumes "distinct (map fst b)" "\<forall>k \<in> fst ` set b. 0 \<le> k \<and> k < int (length ps)"
  shows "\<exists>ps'. applyBaseline_loop b ps = Inr ps' \<and> length ps' = length ps
       \<and> map entry ps' = map entry ps \<and> map updateHandlers ps' = map updateHandlers ps
       \<and> (\<forall>i < length ps. val (ps' ! i) =
            (case map_of b (int i) of Some v \<Rightarrow> v | None \<Rightarrow> val (ps ! i)))"
  using assms
proof (induction b arbitrary: ps)
  case Nil
  then show ?case by simp
next
  case (Cons kv b)
  obtain k v where kv: "kv = (k, v)" by (cases kv)
  have rng: "0 \<le> k" "k < int (length ps)" using Cons.prems(2) kv by simp_all
  then have i: "nat k < length ps" "int (nat k) = k" by auto
  let ?ps = "ps[nat k := (ps ! nat k)\<lparr>val := v\<rparr>]"
  have d: "distinct (map fst b)" and nk: "k \<notin> fst ` set b" using Cons.prems(1) kv by auto
  have "\<forall>k \<in> fst ` set b. 0 \<le> k \<and> k < int (length ?ps)" using Cons.prems(2) by simp
  from Cons.IH[OF d this] obtain ps' where
    ps': "applyBaseline_loop b ?ps = Inr ps'" "length ps' = length ps"
      "map entry ps' = map entry ?ps" "map updateHandlers ps' = map updateHandlers ?ps"
      "\<forall>j < length ps. val (ps' ! j) = (case map_of b (int j) of Some v \<Rightarrow> v | None \<Rightarrow> val (?ps ! j))"
    by auto
  have "applyBaseline_loop (kv # b) ps = Inr ps'" using ps'(1) rng kv by simp
  moreover have "\<forall>j < length ps. val (ps' ! j) =
            (case map_of (kv # b) (int j) of Some v \<Rightarrow> v | None \<Rightarrow> val (ps ! j))"
  proof (intro allI impI)
    fix j assume j: "j < length ps"
    show "val (ps' ! j) = (case map_of (kv # b) (int j) of Some v \<Rightarrow> v | None \<Rightarrow> val (ps ! j))"
    proof (cases "j = nat k")
      case True
      have "map_of b k = None" using nk by (simp add: map_of_eq_None_iff)
      then show ?thesis using ps'(5) j True i kv by simp
    next
      case False
      then have "int j \<noteq> k" using i by auto
      then show ?thesis using ps'(5) j False kv by (simp split: option.splits)
    qed
  qed
  ultimately show ?case using ps'(2,3,4) store_step_fields[OF i(1)] by simp
qed


text \<open>
  Claim C3. Let initializeBaseline return the map \<open>baseline\<close> for an entity \<open>e1\<close> and a
  record, and let \<open>e2\<close> be an entity with the entries of \<open>e1\<close> and no handler (a freshly
  made entity of the same class). Then applyBaseline on \<open>e2\<close> returns, ApplyUpdate of
  the same record on \<open>e2\<close> returns as well, leaving the same rest of the stream, and
  the two resulting entities have the same property values. applyBaseline takes no
  world and returns none, and it leaves every handler list and entry as it was.
\<close>

theorem baseline_capture_then_apply:
  assumes "initializeBaseline dec e1 r w = Inr (baseline, e1', r', w')"
    and "map entry (props e2) = map entry (props e1)"
    and "\<forall>pe \<in> set (props e2). updateHandlers pe = []"
  shows "\<exists>e2' e3'. applyBaseline e2 baseline = Inr e2'
      \<and> ApplyUpdate dec e2 r w2 = Inr (e3', r', w2)
      \<and> map val (props e2') = map val (props e3')
      \<and> map updateHandlers (props e2') = map updateHandlers (props e2)
      \<and> map entry (props e2') = map entry (props e2)"
proof -
  let ?psL = "initializeBaseline_attach 0 (map lift_property (props e1))"
  from assms(1) obtain eL where
    a: "ApplyUpdate dec ((lift_entity e1)\<lparr>props := ?psL\<rparr>) r ([], w) = Inr (eL, r', (baseline, w'))"
    by (auto simp: initializeBaseline_def Let_def bindE_def lift_entity_def split: sum.splits)
  then obtain newWay bits where r: "r = newWay # bits"
    by (cases r) (auto simp: ApplyUpdate_def ReadBit_def bindE_def)
  from a obtain idxs r2 where
    ix: "ApplyUpdate_indices bits (- 1) newWay [] = Inr (idxs, r2)"
    and pl: "ApplyUpdate_props dec ?psL idxs r2 ([], w) = Inr (props eL, r', (baseline, w'))"
    unfolding r ApplyUpdate_Cons by (auto simp: bindE_def split: sum.splits)
  have len1: "length ?psL = length (props e1)"
    by (simp add: initializeBaseline_attach_length)
  have len2: "length (props e2) = length (props e1)"
    using assms(2) by (metis length_map)
  from ApplyUpdate_props_shape[OF pl]
  have rngL: "\<forall>idx \<in> set idxs. 0 \<le> idx \<and> idx < int (length ?psL)" by simp
  then have rng: "\<forall>idx \<in> set idxs. 0 \<le> idx \<and> idx < int (length (props e2))"
    using len1 len2 by simp
  from ApplyUpdate_props_sound[OF pl] obtain vs where
    vs: "decode_in_order dec (map entry ?psL) idxs r2 = Inr (vs, r')"
      "fire_in_order (map updateHandlers ?psL) idxs vs ([], w) = Inr (baseline, w')"
      "length vs = length idxs"
    by blast
  have adders: "\<forall>i < length (map updateHandlers ?psL).
      \<exists>hs. map updateHandlers ?psL ! i = map lift_handler hs @ [adder (int i)]"
    using len1 by (auto simp: initializeBaseline_attach_nth)
  have rngH: "\<forall>idx \<in> set idxs. 0 \<le> idx \<and> idx < int (length (map updateHandlers ?psL))"
    using rngL by simp
  from fire_in_order_adders[OF vs(2) rngH adders]
  have b: "baseline = fold (\<lambda>(k, v). AList.update k v) (zip idxs vs) []" .
  \<comment> \<open>ApplyUpdate on the entity without handlers\<close>
  have dec2: "decode_in_order dec (map entry (props e2)) idxs r2 = Inr (vs, r')"
    using vs(1) assms(2) by (simp add: initializeBaseline_attach_entries)
  have nohs: "map updateHandlers (props e2) ! nat idx = []" if "idx \<in> set idxs" for idx
  proof -
    have "nat idx < length (props e2)" using rng that by auto
    then show ?thesis using assms(3) by simp
  qed
  have fire2: "fire_in_order (map updateHandlers (props e2)) idxs vs w2 = Inr w2"
    using nohs
  proof (induction idxs arbitrary: vs)
    case Nil
    then show ?case by simp
  next
    case (Cons idx idxs)
    then show ?case by (cases vs) (simp_all add: bindE_def)
  qed
  from ApplyUpdate_props_complete[OF rng dec2 fire2]
  have "ApplyUpdate dec e2 r w2 = Inr (e2\<lparr>props := store_values (props e2) idxs vs\<rparr>, r', w2)"
    unfolding r ApplyUpdate_Cons ix by (simp add: bindE_def)
  moreover
  \<comment> \<open>applyBaseline on the same entity\<close>
  have "distinct (map fst baseline)" unfolding b by (rule fold_update_distinct) simp
  moreover have "\<forall>k \<in> fst ` set baseline. 0 \<le> k \<and> k < int (length (props e2))"
    unfolding b fold_update_keys using rng vs(3) by (auto dest: set_zip_leftD)
  ultimately obtain ps' where
    ps': "applyBaseline_loop baseline (props e2) = Inr ps'" "length ps' = length (props e2)"
      "map entry ps' = map entry (props e2)" "map updateHandlers ps' = map updateHandlers (props e2)"
      "\<forall>i < length (props e2). val (ps' ! i) =
            (case map_of baseline (int i) of Some v \<Rightarrow> v | None \<Rightarrow> val (props e2 ! i))"
    and au: "ApplyUpdate dec e2 r w2 = Inr (e2\<lparr>props := store_values (props e2) idxs vs\<rparr>, r', w2)"
    using applyBaseline_loop_values[of baseline "props e2"] by blast
  have sv: "val (store_values (props e2) idxs vs ! i) =
        (case map_of baseline (int i) of Some v \<Rightarrow> v | None \<Rightarrow> val (props e2 ! i))"
    if "i < length (props e2)" for i
    unfolding b using rng that by (intro store_values_map_of) simp_all
  have lsv: "length (store_values (props e2) idxs vs) = length (props e2)"
    using store_values_fields[OF rng] by simp
  have "map val ps' = map val (store_values (props e2) idxs vs)"
    by (rule nth_equalityI) (simp_all add: ps'(2,5) lsv sv)
  moreover have "applyBaseline e2 baseline = Inr (e2\<lparr>props := ps'\<rparr>)"
    using ps'(1) by (simp add: applyBaseline_def bindE_def)
  ultimately show ?thesis using au ps'(3,4) by simp
qed


lemma fresh_props:
  "props (fresh_entity :: (real, real, unit, 'w) Entity) =
     [example_prop ''a'' (example_value 0 (Vector 0 0 0)),
      example_prop ''b'' (example_value 0 (Vector 0 0 0)),
      example_prop ''c'' (example_value 0 (Vector 0 0 0)),
      example_prop ''b'' (example_value 0 (Vector 0 0 0))]"
  by (simp add: fresh_entity_def example_entity_def)

text \<open>
  The baseline of the example record, captured on the entity a, b, c, b and applied
  to the fresh entity: the integer values become 5, 0, 0, 6, as by ApplyUpdate.
\<close>

theorem baseline_capture_then_apply_witness:
  "\<not> isl (initializeBaseline example_decoder (abc_entity :: (real, real, unit, unit) Entity) example_stream ())
   \<and> map entry (props (fresh_entity :: (real, real, unit, unit) Entity))
       = map entry (props (abc_entity :: (real, real, unit, unit) Entity))
   \<and> map updateHandlers (props (fresh_entity :: (real, real, unit, unit) Entity)) = [[], [], [], []]
   \<and> map val (props (projr (applyBaseline (fresh_entity :: (real, real, unit, unit) Entity)
         (fst (projr (initializeBaseline example_decoder
            (abc_entity :: (real, real, unit, unit) Entity) example_stream ()))))))
       = map val (props (fst (projr (ApplyUpdate example_decoder
            (fresh_entity :: (real, real, unit, unit) Entity) example_stream ()))))
   \<and> map (IntVal \<circ> val) (props (fst (projr (ApplyUpdate example_decoder
            (fresh_entity :: (real, real, unit, unit) Entity) example_stream ()))))
       = [5, 0, 0, 6]"
proof -
  let ?e1 = "abc_entity :: (real, real, unit, unit) Entity"
  let ?e2 = "fresh_entity :: (real, real, unit, unit) Entity"
  let ?R = "initializeBaseline example_decoder ?e1 example_stream ()"
  have ok: "\<not> isl ?R" by code_simp
  then obtain y where "?R = Inr y" by (cases ?R) auto
  then obtain b e1' r' w' where R: "?R = Inr (b, e1', r', w')" by (cases y) auto
  have en: "map entry (props ?e2) = map entry (props ?e1)"
    by (simp add: fresh_props abc_props example_prop_def)
  have hs: "map updateHandlers (props ?e2) = [[], [], [], []]"
    by (simp add: fresh_props example_prop_def)
  then have nh: "\<forall>pe \<in> set (props ?e2). updateHandlers pe = []"
    by (simp add: fresh_props example_prop_def)
  from baseline_capture_then_apply[OF R en nh, of "()"] obtain e2' e3' where
    c: "applyBaseline ?e2 b = Inr e2'" "ApplyUpdate example_decoder ?e2 example_stream () = Inr (e3', r', ())"
      "map val (props e2') = map val (props e3')"
    by blast
  have v: "map (IntVal \<circ> val) (props (fst (projr (ApplyUpdate example_decoder ?e2 example_stream ()))))
       = [5, 0, 0, 6]"
    by code_simp
  show ?thesis using ok en hs v c R by simp
qed

end
